theory Spec2Isabelle
  imports Complex_Main "HOL-Library.Multiset"
begin

section \<open>Python strings\<close>

text \<open>
  A Python \<open>str\<close> is a sequence of Unicode code points and \<open>len\<close> counts code points,
  so a text is modelled as the list of its code points. ASCII literals of the source are
  written through \<open>ustr\<close>.
\<close>

type_synonym pystr = "nat list"

definition ustr :: "string \<Rightarrow> pystr" where
  "ustr s = map of_char s"

text \<open>
  The characters \<open>str.strip()\<close> removes when called without argument: the code points
  for which \<open>str.isspace\<close> holds.
\<close>

definition is_space :: "nat \<Rightarrow> bool" where
  "is_space c \<longleftrightarrow>
     (9 \<le> c \<and> c \<le> 13) \<or> (28 \<le> c \<and> c \<le> 32) \<or> c = 133 \<or> c = 160 \<or> c = 5760 \<or>
     (8192 \<le> c \<and> c \<le> 8202) \<or> c = 8232 \<or> c = 8233 \<or> c = 8239 \<or> c = 8287 \<or> c = 12288"

fun lstrip :: "pystr \<Rightarrow> pystr" where
  "lstrip [] = []"
| "lstrip (c # cs) = (if is_space c then lstrip cs else c # cs)"

definition rstrip :: "pystr \<Rightarrow> pystr" where
  "rstrip cs = rev (lstrip (rev cs))"

definition strip :: "pystr \<Rightarrow> pystr" where
  "strip cs = rstrip (lstrip cs)"

text \<open>\<open>sep.join(parts)\<close>.\<close>

fun join :: "'c list \<Rightarrow> 'c list list \<Rightarrow> 'c list" where
  "join sep [] = []"
| "join sep [p] = p"
| "join sep (p # q # ps) = p @ sep @ join sep (q # ps)"

section \<open>Snippets: \<open>_snippet_to_prefix_and_suffix\<close>\<close>

definition SHORTEN_LEN :: nat where
  "SHORTEN_LEN = 400"

text \<open>The marker \<open>'\n...\n'\<close>: a line feed, three full stops, a line feed.\<close>

definition ellipsis_marker :: pystr where
  "ellipsis_marker = [10, 46, 46, 46, 10]"

text \<open>
  \<open>text[:n]\<close> is \<open>take n\<close>; \<open>text[-n:]\<close> for \<open>n > 0\<close> is the last \<open>n\<close> code points, the
  whole text when it is shorter.
\<close>

definition slice_to :: "nat \<Rightarrow> pystr \<Rightarrow> pystr" where
  "slice_to n cs = take n cs"

definition slice_last :: "nat \<Rightarrow> pystr \<Rightarrow> pystr" where
  "slice_last n cs = drop (length cs - n) cs"

definition snippet_to_prefix_and_suffix :: "pystr \<Rightarrow> pystr" where
  "snippet_to_prefix_and_suffix text0 =
     (let text = strip text0 in
      if length text \<le> SHORTEN_LEN then text
      else
        let prefix_len = SHORTEN_LEN div 2
        in slice_to prefix_len text @ ellipsis_marker @ slice_last prefix_len text)"

section \<open>Errors, traces and generators\<close>

text \<open>
  Every exception the modelled code can raise is a value. \<open>OtherError\<close> stands for any
  exception of a collaborator that the code does not name.
\<close>

datatype value_error =
    PathDoesNotExist "string list"
  | MustBeStringField "string list"
  | OutputPathRequired
  | InputRequired
  | ArgmaxOfEmptySequence
  | InhomogeneousShape

datatype error =
    ImportError
  | KeyError
  | IndexError
  | ZeroDivisionError
  | ValueError value_error
  | RateLimitError
  | APITimeoutError
  | OtherError nat
  | RetryError error

text \<open>
  A run of effectful code is the list of the events it produced, in order, and how it
  ended: with an exception or with a value. A Python generator is modelled by the run that
  drives it to exhaustion; each \<open>yield\<close> is an event of the trace.
\<close>

type_synonym ('e, 'x) run = "'e list \<times> (error + 'x)"

definition unit :: "'x \<Rightarrow> ('e, 'x) run" where
  "unit x = ([], Inr x)"

definition lift :: "error + 'x \<Rightarrow> ('e, 'x) run" where
  "lift r = ([], r)"

definition call :: "'e \<Rightarrow> error + 'x \<Rightarrow> ('e, 'x) run" where
  "call ev r = ([ev], r)"

definition andthen :: "('e, 'x) run \<Rightarrow> ('x \<Rightarrow> ('e, 'y) run) \<Rightarrow> ('e, 'y) run" where
  "andthen m f =
     (case m of
        (tr, Inl e) \<Rightarrow> (tr, Inl e)
      | (tr, Inr x) \<Rightarrow> (case f x of (tr', r) \<Rightarrow> (tr @ tr', r)))"

section \<open>The density clustering core: \<open>_hdbscan_cluster\<close>\<close>

text \<open>
  Floating-point numbers (vector entries, membership probabilities) are values of a linearly
  ordered type \<open>'a\<close>; only their order and equality matter to the code modelled here. The
  conversion of an array to \<open>dtype=np.float32\<close> rounds its entries; the rounding is the
  function \<open>to_float32\<close> of the environment. The conversions of labels (\<open>dtype=np.int32\<close>,
  \<open>int(...)\<close>), the conversion \<open>float(...)\<close> and the assignment of a rounded value into an
  array keep the number and are not modelled.
\<close>

definition UMAP_DIM :: int where
  "UMAP_DIM = 5"

definition UMAP_SEED :: int where
  "UMAP_SEED = 42"

definition HDBSCAN_SELECTION_EPS :: rat where
  "HDBSCAN_SELECTION_EPS = 5 / 100"

definition BATCH_SOFT_CLUSTER_NOISE :: nat where
  "BATCH_SOFT_CLUSTER_NOISE = 1024"

record 'a item =
  cluster_id :: int
  cluster_membership_prob :: 'a

record umap_params =
  n_components :: int
  n_neighbors :: int
  min_dist :: rat
  n_jobs :: int
  random_state :: int

record hdbscan_params =
  min_cluster_size :: int
  min_samples :: int
  cluster_selection_epsilon :: rat
  cluster_selection_method :: string
  prediction_data :: bool

text \<open>
  The attributes of a fitted clusterer that the code reads: \<open>clusterer.labels_\<close> and
  \<open>clusterer.probabilities_\<close> (an identifier cannot end with an underscore here).
\<close>

record 'a clusterer =
  fit_labels :: "int list"
  fit_probabilities :: "'a list"

text \<open>A numpy array as \<open>membership_vector\<close> may return it: one- or two-dimensional.\<close>

datatype 'a ndarray = Arr1 "'a list" | Arr2 "'a list list"

text \<open>
  The argument \<open>docs\<close> is declared an iterator. \<open>list(docs)\<close> reads all of it; an iterator
  is empty afterwards, a list is not.
\<close>

datatype docs = DocList "pystr list" | DocIter "pystr list"

fun list_of :: "docs \<Rightarrow> pystr list \<times> docs" where
  "list_of (DocList ds) = (ds, DocList ds)"
| "list_of (DocIter ds) = (ds, DocIter [])"

text \<open>
  The collaborators, which the code calls and does not define: the compression of the
  documents, the remote clustering function, the embedding provider (for each document the
  list of its embedded chunks), the dimensionality reduction, the density clustering and
  its soft membership. Each may raise. \<open>to_float32\<close> is the rounding of a number to single
  precision that \<open>numpy\<close> performs.
\<close>

record 'a env =
  to_float32 :: "'a \<Rightarrow> 'a"
  compress_docs :: "pystr list \<Rightarrow> nat list"
  remote_fn :: "nat list \<Rightarrow> error + (string \<Rightarrow> 'a item list option)"
  jina_compute :: "pystr list \<Rightarrow> error + 'a list list list"
  umap_fit_transform :: "umap_params \<Rightarrow> 'a list list \<Rightarrow> error + 'a list list"
  hdbscan_fit :: "hdbscan_params \<Rightarrow> 'a list list \<Rightarrow> error + 'a clusterer"
  membership_vector :: "'a clusterer \<Rightarrow> 'a list list \<Rightarrow> error + 'a ndarray"

datatype 'a event =
    RemoteCall "nat list"
  | Yield "'a item"
  | JinaCompute "pystr list"
  | UmapFit umap_params "'a list list"
  | HdbscanFit hdbscan_params "'a list list"
  | MembershipVector "'a list list"

fun yield_from :: "'a item list \<Rightarrow> ('a event, unit) run" where
  "yield_from [] = unit ()"
| "yield_from (it # its) = andthen (call (Yield it) (Inr ())) (\<lambda>_. yield_from its)"

subsection \<open>Embeddings and dimensionality reduction\<close>

text \<open>\<open>[r[0][EMBEDDING_KEY] for r in response]\<close>: \<open>r[0]\<close> raises on an empty \<open>r\<close>.\<close>

fun first_embeddings :: "'a list list list \<Rightarrow> error + 'a list list" where
  "first_embeddings [] = Inr []"
| "first_embeddings (r # rs) =
     (case r of
        [] \<Rightarrow> Inl IndexError
      | e # _ \<Rightarrow>
          (case first_embeddings rs of Inl err \<Rightarrow> Inl err | Inr es \<Rightarrow> Inr (e # es)))"

text \<open>
  \<open>np.array(rows, dtype=np.float32)\<close> rounds every entry to single precision; it raises on
  rows of different lengths.
\<close>

definition np_float32 :: "'a env \<Rightarrow> 'a list list \<Rightarrow> 'a list list" where
  "np_float32 env rows = map (map (to_float32 env)) rows"

definition np_array :: "'a env \<Rightarrow> 'a list list \<Rightarrow> error + 'a list list" where
  "np_array env rows =
     (if list_all (\<lambda>r. length r = length (hd rows)) rows then Inr (np_float32 env rows)
      else Inl (ValueError InhomogeneousShape))"

text \<open>\<open>all_vectors[0].size\<close>.\<close>

definition first_size :: "'a list list \<Rightarrow> error + nat" where
  "first_size all_vectors =
     (case all_vectors of [] \<Rightarrow> Inl IndexError | v # _ \<Rightarrow> Inr (length v))"

definition umap_config :: "int \<Rightarrow> umap_params" where
  "umap_config k =
     \<lparr>n_components = UMAP_DIM, n_neighbors = k, min_dist = 0, n_jobs = - 1,
      random_state = UMAP_SEED\<rparr>"

definition embed_stage :: "'a env \<Rightarrow> docs \<Rightarrow> ('a event, 'a list list) run" where
  "embed_stage env docs =
     (let ds = fst (list_of docs) in
      andthen (call (JinaCompute ds) (jina_compute env ds)) (\<lambda>response.
      andthen (lift (first_embeddings response)) (\<lambda>es.
      lift (np_array env es))))"

definition reduce_stage :: "'a env \<Rightarrow> 'a list list \<Rightarrow> ('a event, 'a list list) run" where
  "reduce_stage env all_vectors =
     andthen (lift (first_size all_vectors)) (\<lambda>dim.
       let n_neighbors = min 30 (int (length all_vectors) - 1) in
       if UMAP_DIM < int dim \<and> UMAP_DIM < int (length all_vectors) then
         call (UmapFit (umap_config n_neighbors) all_vectors)
           (umap_fit_transform env (umap_config n_neighbors) all_vectors)
       else unit all_vectors)"

subsection \<open>Density clustering\<close>

definition hdbscan_config :: "int \<Rightarrow> hdbscan_params" where
  "hdbscan_config m =
     \<lparr>min_cluster_size = m, min_samples = m - 1,
      cluster_selection_epsilon = HDBSCAN_SELECTION_EPS,
      cluster_selection_method = ''leaf'', prediction_data = True\<rparr>"

definition fit_stage ::
  "'a env \<Rightarrow> int \<Rightarrow> 'a list list \<Rightarrow> ('a event, 'a clusterer) run" where
  "fit_stage env min_cluster_size0 all_vectors =
     (let m = min min_cluster_size0 (int (length all_vectors)) in
      call (HdbscanFit (hdbscan_config m) all_vectors)
        (hdbscan_fit env (hdbscan_config m) all_vectors))"

subsection \<open>Noise reassignment\<close>

text \<open>
  Modelled from the spec: \<open>chunks\<close> of \<open>lilac/utils.py\<close>, which is not among the sources.
  It cuts a sequence into consecutive batches of the given size, the last one possibly
  shorter ("batched (chunk size 1024)").
\<close>

function chunks :: "'x list \<Rightarrow> nat \<Rightarrow> 'x list list" where
  "chunks xs n =
     (if n = 0 \<or> xs = [] then [] else take n xs # chunks (drop n xs) n)"
  by pat_completeness auto
termination
  by (relation "measure (\<lambda>(xs, n). length xs)") auto

declare chunks.simps [simp del]

text \<open>
  The first loop over \<open>enumerate(clusterer.labels_)\<close>: the vectors of the points labelled
  \<open>-1\<close>. \<open>all_vectors[i]\<close> raises when \<open>i\<close> is out of range.
\<close>

fun collect_noisy :: "int list \<Rightarrow> nat \<Rightarrow> 'a list list \<Rightarrow> error + 'a list list" where
  "collect_noisy [] i all_vectors = Inr []"
| "collect_noisy (c # cs) i all_vectors =
     (if c = - 1 then
        (if i < length all_vectors then
           (case collect_noisy cs (Suc i) all_vectors of
              Inl e \<Rightarrow> Inl e
            | Inr ns \<Rightarrow> Inr (all_vectors ! i # ns))
         else Inl IndexError)
      else collect_noisy cs (Suc i) all_vectors)"

text \<open>\<open>100 * num_noisy / len(clusterer.labels_)\<close> raises on an empty label array.\<close>

definition perc_noisy_check :: "int list \<Rightarrow> error + unit" where
  "perc_noisy_check labels = (if length labels = 0 then Inl ZeroDivisionError else Inr ())"

text \<open>
  \<open>soft_clusters.reshape(-1, 1)\<close> when \<open>soft_clusters.ndim < 2\<close>: every entry becomes a row
  of its own.
\<close>

fun as_rows :: "'a ndarray \<Rightarrow> 'a list list" where
  "as_rows (Arr1 xs) = map (\<lambda>x. [x]) xs"
| "as_rows (Arr2 rows) = rows"

text \<open>
  \<open>np.argmax\<close> of a row: the index of the first occurrence of the maximum; \<open>np.max\<close>: the
  maximum. Along \<open>axis=1\<close> both raise when there are rows and the rows are empty.
\<close>

fun argmax_from :: "'a::linorder \<Rightarrow> nat \<Rightarrow> nat \<Rightarrow> 'a list \<Rightarrow> nat" where
  "argmax_from best bi i [] = bi"
| "argmax_from best bi i (x # xs) =
     (if best < x then argmax_from x i (Suc i) xs else argmax_from best bi (Suc i) xs)"

definition argmax :: "'a::linorder list \<Rightarrow> nat" where
  "argmax row = (case row of [] \<Rightarrow> 0 | x # xs \<Rightarrow> argmax_from x 0 1 xs)"

definition amax :: "'a::linorder list \<Rightarrow> 'a" where
  "amax row = foldl max (hd row) (tl row)"

definition np_argmax_axis1 :: "'a::linorder list list \<Rightarrow> error + int list" where
  "np_argmax_axis1 rows =
     (if list_ex (\<lambda>r. r = []) rows then Inl (ValueError ArgmaxOfEmptySequence)
      else Inr (map (\<lambda>r. int (argmax r)) rows))"

definition np_max_axis1 :: "'a::linorder list list \<Rightarrow> error + 'a list" where
  "np_max_axis1 rows =
     (if list_ex (\<lambda>r. r = []) rows then Inl (ValueError ArgmaxOfEmptySequence)
      else Inr (map amax rows))"

text \<open>
  The loop over the batches of noise vectors; it returns the lists \<open>noisy_labels\<close> and
  \<open>noisy_probs\<close> of per-batch arrays. Each batch is converted by
  \<open>np.array(batch_noisy_vectors, dtype=np.float32)\<close> before the soft membership is computed;
  its rows come from one array and have one length.
\<close>

fun soft_batches ::
  "('a::linorder) env \<Rightarrow> 'a clusterer \<Rightarrow> 'a list list list \<Rightarrow>
     ('a event, int list list \<times> 'a list list) run" where
  "soft_batches env clusterer [] = unit ([], [])"
| "soft_batches env clusterer (batch # batches) =
     (let batch_noisy_vectors = np_float32 env batch in
     andthen (call (MembershipVector batch_noisy_vectors)
                (membership_vector env clusterer batch_noisy_vectors))
       (\<lambda>soft_clusters.
     andthen (lift (np_argmax_axis1 (as_rows soft_clusters))) (\<lambda>ls.
     andthen (lift (np_max_axis1 (as_rows soft_clusters))) (\<lambda>ps.
     andthen (soft_batches env clusterer batches) (\<lambda>(noisy_labels, noisy_probs).
     unit (ls # noisy_labels, ps # noisy_probs))))))"

text \<open>
  The second loop over \<open>enumerate(labels)\<close>. It writes only at the index it has just read,
  so the values it iterates over are those of the array before the loop: the first
  argument. \<open>labels\<close> and \<open>memberships\<close> are the arrays being overwritten in place.
\<close>

fun reassign_loop ::
  "int list \<Rightarrow> nat \<Rightarrow> nat \<Rightarrow> int list \<Rightarrow> 'a list \<Rightarrow> int list \<Rightarrow> 'a list \<Rightarrow>
     error + int list \<times> 'a list" where
  "reassign_loop [] i noise_index noisy_labels noisy_probs labels memberships =
     Inr (labels, memberships)"
| "reassign_loop (c # cs) i noise_index noisy_labels noisy_probs labels memberships =
     (if c = - 1 then
        (if noise_index < length noisy_labels \<and> i < length labels then
           (if noise_index < length noisy_probs \<and> i < length memberships then
              reassign_loop cs (Suc i) (Suc noise_index) noisy_labels noisy_probs
                (labels[i := noisy_labels ! noise_index])
                (memberships[i := noisy_probs ! noise_index])
            else Inl IndexError)
         else Inl IndexError)
      else reassign_loop cs (Suc i) noise_index noisy_labels noisy_probs labels memberships)"

text \<open>
  The reassignment step. \<open>np.concatenate(noisy_probs, axis=0, dtype=np.float32)\<close> joins the
  per-batch maxima and rounds them to single precision; \<open>np.concatenate(noisy_labels, ...)\<close>
  joins the per-batch indices.
\<close>

definition reassign_noise ::
  "('a::linorder) env \<Rightarrow> 'a clusterer \<Rightarrow> 'a list list \<Rightarrow>
     ('a event, int list \<times> 'a list) run" where
  "reassign_noise env clusterer all_vectors =
     andthen (lift (collect_noisy (fit_labels clusterer) 0 all_vectors)) (\<lambda>noisy_vectors.
     let num_noisy = length noisy_vectors in
     andthen (lift (perc_noisy_check (fit_labels clusterer))) (\<lambda>_.
     let labels = fit_labels clusterer; memberships = fit_probabilities clusterer in
     if 0 < num_noisy \<and> num_noisy < length (fit_labels clusterer) then
       andthen (soft_batches env clusterer (chunks noisy_vectors BATCH_SOFT_CLUSTER_NOISE))
         (\<lambda>(noisy_labels, noisy_probs).
       lift (reassign_loop labels 0 0 (concat noisy_labels)
               (map (to_float32 env) (concat noisy_probs)) labels memberships))
     else unit (labels, memberships)))"

subsection \<open>The whole function\<close>

definition to_item :: "int \<times> 'a \<Rightarrow> 'a item" where
  "to_item cp = \<lparr>cluster_id = fst cp, cluster_membership_prob = snd cp\<rparr>"

text \<open>Embedding, reduction and clustering: the vectors clustered and the fitted clusterer.\<close>

definition cluster_stage ::
  "'a env \<Rightarrow> docs \<Rightarrow> int \<Rightarrow> ('a event, 'a list list \<times> 'a clusterer) run" where
  "cluster_stage env docs min_cluster_size0 =
     andthen (embed_stage env docs) (\<lambda>all_vectors.
     andthen (reduce_stage env all_vectors) (\<lambda>all_vectors.
     andthen (fit_stage env min_cluster_size0 all_vectors) (\<lambda>clusterer.
     unit (all_vectors, clusterer))))"

text \<open>The statements after the \<open>if remote:\<close> block.\<close>

definition local_steps :: "('a::linorder) env \<Rightarrow> docs \<Rightarrow> int \<Rightarrow> ('a event, unit) run" where
  "local_steps env docs min_cluster_size0 =
     andthen (cluster_stage env docs min_cluster_size0) (\<lambda>(all_vectors, clusterer).
     andthen (reassign_noise env clusterer all_vectors) (\<lambda>(labels, memberships).
     yield_from (map to_item (zip labels memberships))))"

text \<open>
  The \<open>if remote:\<close> block ends with \<open>yield from response['clusters']\<close> and no \<open>return\<close>:
  control continues with the statements after it, on what is left of \<open>docs\<close>.
\<close>

definition hdbscan_cluster ::
  "('a::linorder) env \<Rightarrow> docs \<Rightarrow> int \<Rightarrow> bool \<Rightarrow> ('a event, unit) run" where
  "hdbscan_cluster env docs min_cluster_size0 remote =
     (if remote then
        (let gzipped_docs = compress_docs env (fst (list_of docs)) in
         andthen (call (RemoteCall gzipped_docs) (remote_fn env gzipped_docs)) (\<lambda>response.
         andthen (lift (case response ''clusters'' of None \<Rightarrow> Inl KeyError
                        | Some clusters \<Rightarrow> Inr clusters)) (\<lambda>clusters.
         andthen (yield_from clusters) (\<lambda>_.
         local_steps env (snd (list_of docs)) min_cluster_size0))))
      else local_steps env docs min_cluster_size0)"

subsection \<open>Reading a run\<close>

text \<open>The calls of the reduction and of the clustering in a trace, with their parameters.\<close>

fun umap_calls :: "'a event list \<Rightarrow> (umap_params \<times> 'a list list) list" where
  "umap_calls [] = []"
| "umap_calls (UmapFit p vs # evs) = (p, vs) # umap_calls evs"
| "umap_calls (ev # evs) = umap_calls evs"

fun hdbscan_calls :: "'a event list \<Rightarrow> (hdbscan_params \<times> 'a list list) list" where
  "hdbscan_calls [] = []"
| "hdbscan_calls (HdbscanFit p vs # evs) = (p, vs) # hdbscan_calls evs"
| "hdbscan_calls (ev # evs) = hdbscan_calls evs"

text \<open>
  What the code relies on from its collaborators: one embedding response per document,
  one reduced vector per vector, one label and one probability per clustered vector.
\<close>

definition jina_contract :: "'a env \<Rightarrow> bool" where
  "jina_contract env \<longleftrightarrow>
     (\<forall>ds response. jina_compute env ds = Inr response \<longrightarrow> length response = length ds)"

definition umap_contract :: "'a env \<Rightarrow> bool" where
  "umap_contract env \<longleftrightarrow>
     (\<forall>p xs ys. umap_fit_transform env p xs = Inr ys \<longrightarrow> length ys = length xs)"

definition hdbscan_contract :: "'a env \<Rightarrow> bool" where
  "hdbscan_contract env \<longleftrightarrow>
     (\<forall>p xs c. hdbscan_fit env p xs = Inr c \<longrightarrow>
        length (fit_labels c) = length xs \<and> length (fit_probabilities c) = length xs)"

text \<open>
  The noise points of a clustering: their number, their vectors in order, and for the point
  at index \<open>i\<close> the number of noise points before it.
\<close>

definition noise_count :: "int list \<Rightarrow> nat" where
  "noise_count labels = length (filter (\<lambda>c. c = - 1) labels)"

definition noise_vectors :: "int list \<Rightarrow> 'a list list \<Rightarrow> 'a list list" where
  "noise_vectors labels all_vectors =
     map snd (filter (\<lambda>cv. fst cv = - 1) (zip labels all_vectors))"

definition noise_rank :: "int list \<Rightarrow> nat \<Rightarrow> nat" where
  "noise_rank labels i = noise_count (take i labels)"

text \<open>
  The soft-cluster membership vectors of the noise points, in order: the rows that
  \<open>membership_vector\<close> returns for the batches of noise vectors (each converted to single
  precision), one batch after the other.
\<close>

definition soft_rows :: "'a env \<Rightarrow> 'a clusterer \<Rightarrow> 'a list list \<Rightarrow> 'a list list" where
  "soft_rows env clusterer noisy_vectors =
     concat (map (\<lambda>batch. case membership_vector env clusterer (np_float32 env batch) of
                             Inl e \<Rightarrow> [] | Inr soft_clusters \<Rightarrow> as_rows soft_clusters)
                 (chunks noisy_vectors BATCH_SOFT_CLUSTER_NOISE))"

text \<open>
  The soft membership succeeds on every batch with one non-empty row per noise vector (a
  two-dimensional result), or one entry per noise vector (a one-dimensional one).
\<close>

definition membership_ok :: "'a env \<Rightarrow> 'a clusterer \<Rightarrow> 'a list list \<Rightarrow> bool" where
  "membership_ok env clusterer noisy_vectors \<longleftrightarrow>
     (\<forall>batch \<in> set (chunks noisy_vectors BATCH_SOFT_CLUSTER_NOISE).
        \<exists>soft_clusters.
          membership_vector env clusterer (np_float32 env batch) = Inr soft_clusters \<and>
          length (as_rows soft_clusters) = length batch \<and> [] \<notin> set (as_rows soft_clusters))"

subsection \<open>A concrete set of collaborators\<close>

text \<open>
  Rounding a rational number to single precision (IEEE 754 binary32): to the nearest
  number with a significand of 24 bits, a tie to the one with an even significand; below
  \<open>2 ** -126\<close> the spacing stays \<open>2 ** -149\<close>. Numbers beyond the largest single-precision
  number, which \<open>numpy\<close> turns into infinity, are outside this definition.
\<close>

function bit_length :: "int \<Rightarrow> int" where
  "bit_length n = (if n \<le> 0 then 0 else 1 + bit_length (n div 2))"
  by pat_completeness auto
termination
  by (relation "measure nat") auto

declare bit_length.simps [simp del]

definition pow2 :: "int \<Rightarrow> rat" where
  "pow2 e = (if 0 \<le> e then 2 ^ nat e else 1 / 2 ^ nat (- e))"

text \<open>The integer \<open>e\<close> with \<open>2 ** e \<le> x < 2 ** (e + 1)\<close>, for a positive \<open>x\<close>.\<close>

definition floor_log2 :: "rat \<Rightarrow> int" where
  "floor_log2 x =
     (let d = bit_length (fst (quotient_of x)) - bit_length (snd (quotient_of x))
      in if pow2 d \<le> x then d else d - 1)"

definition round_half_even :: "rat \<Rightarrow> int" where
  "round_half_even y =
     (let f = \<lfloor>y\<rfloor>; r = y - of_int f
      in if r < 1 / 2 then f else if 1 / 2 < r then f + 1 else if even f then f else f + 1)"

definition float32_round :: "rat \<Rightarrow> rat" where
  "float32_round x =
     (if x = 0 then 0
      else
        (let e = max (floor_log2 \<bar>x\<bar>) (- 126); quantum = pow2 (e - 23)
         in of_int (round_half_even (x / quantum)) * quantum))"

text \<open>
  Collaborators simple enough to run by hand. The embedding of a document has six entries,
  the first its length; the reduction keeps the first \<open>n_components\<close> entries; the clustering
  labels the vectors that start with zero as noise and puts the others into cluster 0; the
  soft membership of every point is \<open>[1/2, 1 - 2 ** -30]\<close>, whose second entry is not a
  single-precision number. The remote function answers with one cluster entry, whatever it
  is sent.
\<close>

definition demo_env :: "rat env" where
  "demo_env =
     \<lparr>to_float32 = float32_round,
      compress_docs = (\<lambda>ds. [length ds]),
      remote_fn = (\<lambda>gz. Inr (\<lambda>k. if k = ''clusters''
                                   then Some [\<lparr>cluster_id = 0, cluster_membership_prob = 1\<rparr>]
                                   else None)),
      jina_compute = (\<lambda>ds. Inr (map (\<lambda>d. [[of_nat (length d), 0, 0, 0, 0, 0]]) ds)),
      umap_fit_transform = (\<lambda>p vs. Inr (map (take (nat (n_components p))) vs)),
      hdbscan_fit = (\<lambda>p vs. Inr \<lparr>fit_labels = map (\<lambda>v. if hd v = 0 then - 1 else 0) vs,
                                  fit_probabilities = map (\<lambda>v. 1) vs\<rparr>),
      membership_vector =
        (\<lambda>c batch. Inr (Arr2 (map (\<lambda>v. [1 / 2, 1073741823 / 1073741824]) batch)))\<rparr>"

definition doc_a :: pystr where
  "doc_a = ustr ''a''"

definition six_docs :: "pystr list" where
  "six_docs = [ustr ''a'', ustr ''bb'', ustr ''a'', ustr ''ccc'', ustr ''bb'', ustr ''a'']"

section \<open>Titles for groups of rows: \<open>_compute_titles\<close>\<close>

text \<open>
  A row carries the values of the three columns the function is told to read: the text
  column, the id column and the membership column. \<open>None\<close> in the id and membership
  fields is a missing key; \<open>None\<close> in the text field is a missing key or the value \<open>None\<close>,
  which \<open>item.get(text_column)\<close> does not tell apart.
\<close>

record 'p row =
  row_text :: "pystr option"
  row_id :: "int option"
  row_membership :: "'p option"

text \<open>
  Modelled from the spec: \<open>group_by_sorted_key_iter\<close> of \<open>lilac/batch_utils.py\<close>, which is
  not among the sources ("sort-then-group over a key function"): it takes a sequence sorted
  by key and yields, in order, the lists of neighbouring items that share a key.
\<close>

function group_by_sorted_key_iter :: "'x list \<Rightarrow> ('x \<Rightarrow> 'k) \<Rightarrow> 'x list list" where
  "group_by_sorted_key_iter [] key_fn = []"
| "group_by_sorted_key_iter (x # xs) key_fn =
     (x # takeWhile (\<lambda>y. key_fn y = key_fn x) xs) #
     group_by_sorted_key_iter (dropWhile (\<lambda>y. key_fn y = key_fn x) xs) key_fn"
  by pat_completeness auto
termination
  by (relation "measure (\<lambda>(xs, key_fn). length xs)")
    (auto simp: length_dropWhile_le less_Suc_eq_le)

text \<open>
  The loop over the items of a group: a row is skipped when its id is negative (or missing),
  when its text is missing or empty, and when its membership is zero (or missing). The test
  \<open>if not item\<close> never holds here: the key function \<open>x[id_column]\<close> has been applied to the
  row, so the row has a key.
\<close>

fun keep_docs :: "('p::zero) row list \<Rightarrow> (pystr \<times> 'p) list" where
  "keep_docs [] = []"
| "keep_docs (item # rest) =
     (let cluster_id = (case row_id item of None \<Rightarrow> - 1 | Some c \<Rightarrow> c) in
      if cluster_id < 0 then keep_docs rest
      else
        (case row_text item of
           None \<Rightarrow> keep_docs rest
         | Some t \<Rightarrow>
             if t = [] then keep_docs rest
             else
               (let membership_prob = (case row_membership item of None \<Rightarrow> 0 | Some p \<Rightarrow> p) in
                if membership_prob = 0 then keep_docs rest
                else (t, membership_prob) # keep_docs rest)))"

text \<open>
  \<open>random.shuffle\<close>: for \<open>i\<close> from the last index down to 1, swap the entries at \<open>i\<close> and
  at a random index \<open>j \<le> i\<close>. The random numbers are read from \<open>rng\<close> at a position that
  moves on with every draw.
\<close>

fun shuffle_loop :: "(nat \<Rightarrow> nat) \<Rightarrow> nat \<Rightarrow> nat \<Rightarrow> 'x list \<Rightarrow> 'x list \<times> nat" where
  "shuffle_loop rng pos 0 xs = (xs, pos)"
| "shuffle_loop rng pos (Suc i) xs =
     (let j = rng pos mod (Suc i + 1) in
      shuffle_loop rng (Suc pos) i (xs[Suc i := xs ! j, j := xs ! Suc i]))"

definition shuffle :: "(nat \<Rightarrow> nat) \<Rightarrow> nat \<Rightarrow> 'x list \<Rightarrow> 'x list \<times> nat" where
  "shuffle rng pos xs = shuffle_loop rng pos (length xs - 1) xs"

text \<open>\<open>sorted_docs.sort(key=lambda text_score: text_score[1], reverse=True)\<close>, a stable sort.\<close>

fun insort_desc :: "'d \<times> ('p::linorder) \<Rightarrow> ('d \<times> 'p) list \<Rightarrow> ('d \<times> 'p) list" where
  "insort_desc x [] = [x]"
| "insort_desc x (y # ys) = (if snd y \<le> snd x then x # y # ys else y # insort_desc x ys)"

definition sort_desc :: "('d \<times> ('p::linorder)) list \<Rightarrow> ('d \<times> 'p) list" where
  "sort_desc xs = foldr insort_desc xs []"

text \<open>
  The ranked documents of a group. \<open>list(set(sorted_docs))\<close> keeps one copy of every pair in
  an order the language leaves open; the shuffle that follows makes every order possible.
\<close>

definition rank_docs ::
  "(nat \<Rightarrow> nat) \<Rightarrow> nat \<Rightarrow> ('p::{linorder,zero}) row list \<Rightarrow> (pystr \<times> 'p) list \<times> nat" where
  "rank_docs rng pos grp =
     (let sorted_docs = remdups (keep_docs grp);
          shuffled = shuffle rng pos sorted_docs
      in (sort_desc (fst shuffled), snd shuffled))"

text \<open>
  The calls of the topic function run on a pool of threads and their results are consumed
  in the order of the groups; the trace lists each call where its result is consumed. The
  progress counter of the optional task is not modelled.
\<close>

datatype 'p title_event = TopicCall "(pystr \<times> 'p) list" | YieldTitle "pystr option"

definition compute_title ::
  "((pystr \<times> 'p) list \<Rightarrow> error + pystr) \<Rightarrow> (pystr \<times> 'p) list \<Rightarrow> nat \<Rightarrow>
     ('p title_event, nat \<times> pystr option) run" where
  "compute_title topic_fn sorted_docs group_size =
     (if sorted_docs = [] then unit (group_size, None)
      else andthen (call (TopicCall sorted_docs) (topic_fn sorted_docs))
             (\<lambda>title. unit (group_size, Some title)))"

fun titles_of_groups ::
  "(nat \<Rightarrow> nat) \<Rightarrow> nat \<Rightarrow> ((pystr \<times> 'p) list \<Rightarrow> error + pystr) \<Rightarrow>
     ('p::{linorder,zero}) row list list \<Rightarrow> ('p title_event, unit) run" where
  "titles_of_groups rng pos topic_fn [] = unit ()"
| "titles_of_groups rng pos topic_fn (grp # groups) =
     (let ranked = rank_docs rng pos grp in
      andthen (compute_title topic_fn (fst ranked) (length grp)) (\<lambda>(group_size, title).
      andthen (replicate group_size (YieldTitle title), Inr ()) (\<lambda>_.
      titles_of_groups rng (snd ranked) topic_fn groups)))"

text \<open>
  The key function \<open>lambda x: x[id_column]\<close> raises on a row without the id column. How many
  titles have been yielded by then depends on the scheduling of the pool; the model reports
  the exception alone.
\<close>

definition compute_titles ::
  "(nat \<Rightarrow> nat) \<Rightarrow> ((pystr \<times> 'p) list \<Rightarrow> error + pystr) \<Rightarrow> ('p::{linorder,zero}) row list \<Rightarrow>
     ('p title_event, unit) run" where
  "compute_titles rng topic_fn items =
     (if list_ex (\<lambda>item. row_id item = None) items then ([], Inl KeyError)
      else titles_of_groups rng 0 topic_fn (group_by_sorted_key_iter items row_id))"

subsection \<open>Reading a run of \<open>_compute_titles\<close>\<close>

fun yielded_titles :: "'p title_event list \<Rightarrow> pystr option list" where
  "yielded_titles [] = []"
| "yielded_titles (YieldTitle t # evs) = t # yielded_titles evs"
| "yielded_titles (ev # evs) = yielded_titles evs"

fun topic_calls :: "'p title_event list \<Rightarrow> (pystr \<times> 'p) list list" where
  "topic_calls [] = []"
| "topic_calls (TopicCall ds # evs) = ds # topic_calls evs"
| "topic_calls (ev # evs) = topic_calls evs"

text \<open>
  A row is excluded from the ranked documents when its id is negative or missing, its text
  missing or empty, its membership zero or missing; a row that is not contributes the pair
  of its text and its membership.
\<close>

definition excluded :: "('p::zero) row \<Rightarrow> bool" where
  "excluded item \<longleftrightarrow>
     (case row_id item of None \<Rightarrow> True | Some c \<Rightarrow> c < 0) \<or>
     (case row_text item of None \<Rightarrow> True | Some t \<Rightarrow> t = []) \<or>
     (case row_membership item of None \<Rightarrow> True | Some p \<Rightarrow> p = 0)"

definition doc_pair :: "'p row \<Rightarrow> pystr \<times> 'p" where
  "doc_pair item = (the (row_text item), the (row_membership item))"

text \<open>
  A list is the ranked list of a group when it holds the pairs of the rows of the group that
  are not excluded, each once, by descending membership.
\<close>

definition ranked_for :: "('p::{linorder,zero}) row list \<Rightarrow> (pystr \<times> 'p) list \<Rightarrow> bool" where
  "ranked_for grp docs \<longleftrightarrow>
     set docs = doc_pair ` {item \<in> set grp. \<not> excluded item} \<and> distinct docs \<and>
     sorted_wrt (\<lambda>a b. snd b \<le> snd a) docs"

text \<open>The title of a group with the given ranked list: none for an empty list.\<close>

definition title_for ::
  "((pystr \<times> 'p) list \<Rightarrow> error + pystr) \<Rightarrow> (pystr \<times> 'p) list \<Rightarrow> pystr option \<Rightarrow> bool" where
  "title_for topic_fn docs title \<longleftrightarrow>
     (if docs = [] then title = None else topic_fn docs = Inr (the title) \<and> title \<noteq> None)"

definition demo_rows :: "rat row list" where
  "demo_rows =
     [\<lparr>row_text = Some (ustr ''x''), row_id = Some (- 1), row_membership = Some 1\<rparr>,
      \<lparr>row_text = Some (ustr ''a''), row_id = Some 0, row_membership = Some (1 / 2)\<rparr>,
      \<lparr>row_text = Some [], row_id = Some 0, row_membership = Some 1\<rparr>,
      \<lparr>row_text = Some (ustr ''b''), row_id = Some 0, row_membership = Some 1\<rparr>,
      \<lparr>row_text = Some (ustr ''c''), row_id = Some 1, row_membership = Some 0\<rparr>]"

definition demo_topic_fn :: "(pystr \<times> rat) list \<Rightarrow> error + pystr" where
  "demo_topic_fn docs = Inr (join (ustr ''+'') (map fst docs))"

section \<open>The labeler: \<open>summarize_request\<close> and \<open>generate_category\<close>\<close>

definition TOP_K_CENTRAL_DOCS :: nat where
  "TOP_K_CENTRAL_DOCS = 7"

definition TOP_K_CENTRAL_TITLES :: nat where
  "TOP_K_CENTRAL_TITLES = 15"

subsection \<open>The retry decorator\<close>

text \<open>
  The arguments of \<open>@retry(...)\<close>: the exception types of \<open>retry_if_exception_type\<close>, the
  \<open>multiplier\<close> and \<open>max\<close> of \<open>wait_random_exponential\<close> in seconds, and the bound of
  \<open>stop_after_attempt\<close>.
\<close>

record retry_policy =
  retry_types :: "error list"
  wait_multiplier :: rat
  wait_max :: rat
  stop_attempts :: nat

text \<open>
  The loop of the \<open>tenacity\<close> library, a dependency of the repository, as its documentation
  describes it. The wrapped function is called; a result is returned; an exception that is
  not of a retried type is raised again; after the last allowed attempt \<open>RetryError\<close> is
  raised; otherwise the loop sleeps and calls again. \<open>wait_random_exponential\<close> sleeps for a
  uniformly random time between zero and \<open>min(max, multiplier * 2 ** (attempt - 1))\<close>.

  \<open>outcome n\<close> is what the \<open>n\<close>-th call of the wrapped function does, \<open>draw n\<close> the random
  number in \<open>[0, 1]\<close> drawn for the sleep after it.
\<close>

datatype retry_event = Attempt nat | Sleep rat

definition wait_random_exponential :: "retry_policy \<Rightarrow> (nat \<Rightarrow> rat) \<Rightarrow> nat \<Rightarrow> rat" where
  "wait_random_exponential policy draw attempt_number =
     draw attempt_number *
       max 0 (min (wait_multiplier policy * 2 ^ (attempt_number - 1)) (wait_max policy))"

function retrying ::
  "retry_policy \<Rightarrow> (nat \<Rightarrow> error + 'x) \<Rightarrow> (nat \<Rightarrow> rat) \<Rightarrow> nat \<Rightarrow> (retry_event, 'x) run" where
  "retrying policy outcome draw attempt_number =
     (case outcome attempt_number of
        Inr result \<Rightarrow> ([Attempt attempt_number], Inr result)
      | Inl exc \<Rightarrow>
          if exc \<notin> set (retry_types policy) then ([Attempt attempt_number], Inl exc)
          else if stop_attempts policy \<le> attempt_number then
            ([Attempt attempt_number], Inl (RetryError exc))
          else
            (case retrying policy outcome draw (Suc attempt_number) of
               (tr, r) \<Rightarrow>
                 (Attempt attempt_number #
                  Sleep (wait_random_exponential policy draw attempt_number) # tr, r)))"
  by pat_completeness auto
termination
  by (relation "measure (\<lambda>(policy, outcome, draw, n). stop_attempts policy - n)") auto

declare retrying.simps [simp del]

subsection \<open>The two requests\<close>

text \<open>
  The text-generation backend: whether the \<open>openai\<close> package can be imported, what the
  \<open>n\<close>-th call of \<open>chat.completions.create\<close> with a given system instruction and user content
  does, and the random numbers of the retry loop. The two system instructions are fixed
  texts; only which of the two is sent matters here.
\<close>

datatype instruction = TitleGenerator | CategoryLabeler

record backend =
  openai_installed :: bool
  chat_create :: "instruction \<Rightarrow> pystr \<Rightarrow> nat \<Rightarrow> error + pystr"
  random_draw :: "nat \<Rightarrow> rat"

definition summarize_request_policy :: retry_policy where
  "summarize_request_policy =
     \<lparr>retry_types = [RateLimitError, APITimeoutError], wait_multiplier = 1 / 2,
      wait_max = 60, stop_attempts = 10\<rparr>"

definition generate_category_policy :: retry_policy where
  "generate_category_policy =
     \<lparr>retry_types = [RateLimitError, APITimeoutError], wait_multiplier = 1 / 2,
      wait_max = 60, stop_attempts = 10\<rparr>"

definition summarize_request_input :: "(pystr \<times> 'p) list \<Rightarrow> pystr" where
  "summarize_request_input ranked_docs =
     (let docs = map fst (take TOP_K_CENTRAL_DOCS ranked_docs);
          texts = map (\<lambda>doc. ustr ''BEGIN_REQUEST'' @ [10] @ snippet_to_prefix_and_suffix doc @
                               [10] @ ustr ''END_REQUEST'') docs
      in join [10] texts)"

definition summarize_request :: "backend \<Rightarrow> (pystr \<times> 'p) list \<Rightarrow> (retry_event, pystr) run" where
  "summarize_request backend ranked_docs =
     (let input = summarize_request_input ranked_docs in
      if \<not> openai_installed backend then ([], Inl ImportError)
      else retrying summarize_request_policy (chat_create backend TitleGenerator input)
             (random_draw backend) 1)"

definition generate_category_input :: "(pystr \<times> 'p) list \<Rightarrow> pystr" where
  "generate_category_input ranked_docs =
     (let docs = map fst (take TOP_K_CENTRAL_TITLES ranked_docs) in join [10] docs)"

definition generate_category :: "backend \<Rightarrow> (pystr \<times> 'p) list \<Rightarrow> (retry_event, pystr) run" where
  "generate_category backend ranked_docs =
     (let input = generate_category_input ranked_docs in
      if \<not> openai_installed backend then ([], Inl ImportError)
      else retrying generate_category_policy (chat_create backend CategoryLabeler input)
             (random_draw backend) 1)"

text \<open>
  The retry contract of a run against the outcomes of the calls and the random numbers
  drawn: the attempts are \<open>1, ..., k\<close> with \<open>k\<close> at most 10; after each attempt \<open>j\<close> but the
  last the run sleeps for the random number drawn times \<open>min(60, 0.5 * 2 ** (j - 1))\<close>
  seconds; every attempt before the last failed with a rate-limit or a timeout error; the
  last attempt's result is returned, its exception raised again when it is of another type,
  and \<open>RetryError\<close> raised when it is a rate-limit or a timeout error, which is then the
  tenth.
\<close>

definition retry_contract ::
  "(nat \<Rightarrow> error + 'x) \<Rightarrow> (nat \<Rightarrow> rat) \<Rightarrow> (retry_event, 'x) run \<Rightarrow> bool" where
  "retry_contract outcome draw r \<longleftrightarrow>
     (\<exists>k. 1 \<le> k \<and> k \<le> 10 \<and>
        fst r =
          concat (map (\<lambda>j. [Attempt j, Sleep (draw j * min 60 ((1 / 2) * 2 ^ (j - 1)))])
                    [1..<k]) @ [Attempt k] \<and>
        (\<forall>j. 1 \<le> j \<and> j < k \<longrightarrow>
           outcome j = Inl RateLimitError \<or> outcome j = Inl APITimeoutError) \<and>
        (case outcome k of
           Inr result \<Rightarrow> snd r = Inr result
         | Inl exc \<Rightarrow>
             if exc = RateLimitError \<or> exc = APITimeoutError
             then k = 10 \<and> snd r = Inl (RetryError exc)
             else snd r = Inl exc))"

definition demo_backend :: backend where
  "demo_backend =
     \<lparr>openai_installed = True,
      chat_create = (\<lambda>instruction input n.
         if n = 1 then Inl RateLimitError
         else if n = 2 then Inl APITimeoutError
         else if instruction = TitleGenerator then Inr (ustr ''Greetings'')
         else Inl (OtherError 401)),
      random_draw = (\<lambda>n. 1 / 2)\<rparr>"

text \<open>A backend that is always rate-limited, with the largest random numbers.\<close>

definition limited_backend :: backend where
  "limited_backend =
     \<lparr>openai_installed = True,
      chat_create = (\<lambda>instruction input n. Inl RateLimitError),
      random_draw = (\<lambda>n. 1)\<rparr>"

section \<open>The pipeline: \<open>cluster_impl\<close>\<close>

text \<open>
  Modelled from the spec: \<open>PATH_WILDCARD\<close> of \<open>lilac/schema.py\<close>, which is not among the
  sources ("\<open>*\<close> is the wildcard component").
\<close>

definition PATH_WILDCARD :: string where
  "PATH_WILDCARD = ''*''"

definition FIELD_SUFFIX :: string where
  "FIELD_SUFFIX = ''cluster''"

definition TEXT_COLUMN :: string where
  "TEXT_COLUMN = ''text''"

definition CLUSTER_ID :: string where
  "CLUSTER_ID = ''cluster_id''"

definition CLUSTER_TITLE :: string where
  "CLUSTER_TITLE = ''cluster_title''"

definition CATEGORY_ID :: string where
  "CATEGORY_ID = ''category_id''"

definition CATEGORY_TITLE :: string where
  "CATEGORY_TITLE = ''category_title''"

text \<open>
  A \<open>Path\<close> is a string or a tuple of strings. The input is a path or a callable (known by
  its name), given directly or as the \<open>selector\<close> of a \<open>DatasetFormatInputSelector\<close>.
\<close>

datatype path_arg = PathStr string | PathTuple "string list"

datatype plain_input = InPath path_arg | InFn string

datatype cluster_input = Plain plain_input | FormatSelector plain_input

text \<open>Truth values of optional arguments: \<open>None\<close>, the empty string and the empty tuple are false.\<close>

fun truthy_path :: "path_arg option \<Rightarrow> bool" where
  "truthy_path None = False"
| "truthy_path (Some (PathStr s)) = (s \<noteq> [])"
| "truthy_path (Some (PathTuple parts)) = (parts \<noteq> [])"

fun truthy_str :: "string option \<Rightarrow> bool" where
  "truthy_str None = False"
| "truthy_str (Some s) = (s \<noteq> [])"

text \<open>
  A field of the schema, as far as the code looks at it: \<open>field.dtype\<close> is \<open>None\<close> or has a
  \<open>type\<close>. A schema maps the paths it has to their fields: \<open>has_field\<close> and \<open>get_field\<close>.
\<close>

record field =
  field_dtype :: "string option"

type_synonym schema = "string list \<Rightarrow> field option"

datatype stage =
    ExtractText
  | ComputeClusters
  | ComputeClusterTitles
  | ComputeCategoryClusters
  | ComputeCategoryTitles

text \<open>The provenance written with the last stage: \<open>ClusterInfo\<close>.\<close>

record cluster_info =
  info_min_cluster_size :: int
  info_remote :: bool
  info_input_path :: "string list"

text \<open>
  What the function does to its collaborators, in order: the task manager, and the
  dataset's \<open>manifest\<close>, \<open>map\<close>, \<open>transform\<close> (stage, input path, output path, \<open>sort_by\<close>,
  provenance) and \<open>stats\<close>. The functions handed to \<open>map\<close> and \<open>transform\<close> are run by the
  dataset; an event names the stage they belong to. The message and the counters written
  to the task are not modelled.
\<close>

datatype ds_event =
    GetTaskInfo string
  | Manifest
  | DatasetMap stage "string list"
  | DatasetTransform stage "string list" "string list" "string list option" "cluster_info option"
  | DatasetStats "string list"
  | SetCompleted string

text \<open>
  The collaborators: the schema that \<open>dataset.manifest()\<close> returns, \<open>normalize_path\<close> of
  \<open>lilac/schema.py\<close>, the task manager's lookup, and how each further call on the dataset
  or the task manager ends. Each may raise.
\<close>

record pipeline =
  manifest :: "error + schema"
  normalize_path :: "path_arg \<Rightarrow> string list"
  get_task_info :: "string \<Rightarrow> error + unit"
  perform :: "ds_event \<Rightarrow> error + unit"

text \<open>\<open>task_info\<close> is looked up when a task id is given; the result says whether there is one.\<close>

definition lookup_task :: "pipeline \<Rightarrow> string option \<Rightarrow> (ds_event, bool) run" where
  "lookup_task pl task_id =
     (if truthy_str task_id then
        andthen (call (GetTaskInfo (the task_id)) (get_task_info pl (the task_id)))
          (\<lambda>_. unit True)
      else unit False)"

text \<open>\<open>if isinstance(input_fn_or_path, DatasetFormatInputSelector): ... = ....selector\<close>.\<close>

fun unwrap_input :: "cluster_input \<Rightarrow> plain_input" where
  "unwrap_input (Plain i) = i"
| "unwrap_input (FormatSelector i) = i"

text \<open>
  The checks on the input. The result is the normalized input path, \<open>None\<close> for a callable.
\<close>

definition check_input ::
  "pipeline \<Rightarrow> schema \<Rightarrow> plain_input \<Rightarrow> path_arg option \<Rightarrow> error + string list option" where
  "check_input pl schema input_fn_or_path output_path =
     (case input_fn_or_path of
        InPath p \<Rightarrow>
          (let path = normalize_path pl p in
           case schema path of
             None \<Rightarrow> Inl (ValueError (PathDoesNotExist path))
           | Some input_field \<Rightarrow>
               (case field_dtype input_field of
                  None \<Rightarrow> Inl (ValueError (MustBeStringField path))
                | Some t \<Rightarrow>
                    if t \<noteq> ''string'' then Inl (ValueError (MustBeStringField path))
                    else Inr (Some path)))
      | InFn f \<Rightarrow>
          if \<not> truthy_path output_path then Inl (ValueError OutputPathRequired)
          else Inr None)"

text \<open>
  The sibling output path: the loop leaves in \<open>index\<close> the position of the last component
  before the first wildcard.
\<close>

fun wildcard_index :: "string list \<Rightarrow> nat \<Rightarrow> nat \<Rightarrow> nat" where
  "wildcard_index [] i index = index"
| "wildcard_index (path_part # parts) i index =
     (if path_part = PATH_WILDCARD then index else wildcard_index parts (Suc i) i)"

definition sibling_path :: "string list \<Rightarrow> string list" where
  "sibling_path path =
     (let index = wildcard_index path 0 0;
          parent = take index path;
          sibling = join ''_'' (filter (\<lambda>p. p \<noteq> PATH_WILDCARD) (drop index path))
      in parent @ [sibling @ ''__'' @ FIELD_SUFFIX])"

definition choose_output_path ::
  "pipeline \<Rightarrow> path_arg option \<Rightarrow> string list option \<Rightarrow> error + string list" where
  "choose_output_path pl output_path path =
     (if truthy_path output_path then Inr (normalize_path pl (the output_path))
      else
        (case path of
           None \<Rightarrow> Inl (ValueError InputRequired)
         | Some p \<Rightarrow> if p \<noteq> [] then Inr (sibling_path p) else Inl (ValueError InputRequired)))"

text \<open>A call on the dataset or the task manager, and a call made only under a condition.\<close>

definition run_op :: "pipeline \<Rightarrow> ds_event \<Rightarrow> (ds_event, unit) run" where
  "run_op pl ev = call ev (perform pl ev)"

definition when_do :: "bool \<Rightarrow> (ds_event, unit) run \<Rightarrow> (ds_event, unit) run" where
  "when_do b m = (if b then m else unit ())"

text \<open>
  The five stages. The schema is the one read at the start: it is not read again between
  the stages.
\<close>

definition run_stages ::
  "pipeline \<Rightarrow> schema \<Rightarrow> string list \<Rightarrow> bool \<Rightarrow> bool \<Rightarrow> bool \<Rightarrow> cluster_info \<Rightarrow>
     (ds_event, unit) run" where
  "run_stages pl schema cluster_output_path has_task overwrite recompute_titles info =
     (let temp_text_path = cluster_output_path @ [TEXT_COLUMN];
          category_title_path = cluster_output_path @ [CATEGORY_TITLE]
      in
      andthen (when_do (schema temp_text_path = None \<or> overwrite)
        (run_op pl (DatasetMap ExtractText cluster_output_path))) (\<lambda>_.
      andthen (when_do (schema (cluster_output_path @ [CLUSTER_ID]) = None \<or> overwrite)
        (run_op pl (DatasetTransform ComputeClusters cluster_output_path cluster_output_path
           None None))) (\<lambda>_.
      andthen (when_do
        (schema (cluster_output_path @ [CLUSTER_TITLE]) = None \<or> overwrite \<or> recompute_titles)
        (andthen (when_do has_task (run_op pl (DatasetStats temp_text_path))) (\<lambda>_.
         run_op pl (DatasetTransform ComputeClusterTitles cluster_output_path
           cluster_output_path (Some (cluster_output_path @ [CLUSTER_ID])) None)))) (\<lambda>_.
      andthen (when_do
        (schema (cluster_output_path @ [CATEGORY_ID]) = None \<or> overwrite \<or> recompute_titles)
        (run_op pl (DatasetTransform ComputeCategoryClusters cluster_output_path
           cluster_output_path None None))) (\<lambda>_.
      when_do (schema category_title_path = None \<or> overwrite \<or> recompute_titles)
        (andthen (when_do has_task (run_op pl (DatasetStats category_title_path))) (\<lambda>_.
         run_op pl (DatasetTransform ComputeCategoryTitles cluster_output_path
           cluster_output_path (Some (cluster_output_path @ [CATEGORY_ID])) (Some info)))))))))"

definition cluster_impl ::
  "pipeline \<Rightarrow> cluster_input \<Rightarrow> path_arg option \<Rightarrow> int \<Rightarrow> bool \<Rightarrow> bool \<Rightarrow> string option \<Rightarrow>
     bool \<Rightarrow> (ds_event, unit) run" where
  "cluster_impl pl input_fn_or_path0 output_path min_cluster_size0 overwrite remote task_id
     recompute_titles =
     andthen (lookup_task pl task_id) (\<lambda>has_task.
     andthen (call Manifest (manifest pl)) (\<lambda>schema.
     let input_fn_or_path = unwrap_input input_fn_or_path0 in
     andthen (lift (check_input pl schema input_fn_or_path output_path)) (\<lambda>path.
     andthen (lift (choose_output_path pl output_path path)) (\<lambda>cluster_output_path.
     let info = \<lparr>info_min_cluster_size = min_cluster_size0, info_remote = remote,
                 info_input_path = (case input_fn_or_path of InFn name \<Rightarrow> [name]
                                    | InPath p \<Rightarrow> the path)\<rparr>
     in
     andthen (run_stages pl schema cluster_output_path has_task overwrite recompute_titles info)
       (\<lambda>_.
     if truthy_str task_id then run_op pl (SetCompleted (the task_id)) else unit ())))))"

text \<open>Whether an event reads or writes the data of the dataset.\<close>

fun touches_data :: "ds_event \<Rightarrow> bool" where
  "touches_data (DatasetMap s out) = True"
| "touches_data (DatasetTransform s inp out sort_by info) = True"
| "touches_data (DatasetStats p) = True"
| "touches_data ev = False"

definition demo_schema :: schema where
  "demo_schema path =
     (if path = [''text''] then Some \<lparr>field_dtype = Some ''string''\<rparr>
      else if path = [''n''] then Some \<lparr>field_dtype = Some ''int32''\<rparr>
      else if path = [''meta''] then Some \<lparr>field_dtype = None\<rparr>
      else None)"

definition demo_pipeline :: pipeline where
  "demo_pipeline =
     \<lparr>manifest = Inr demo_schema,
      normalize_path = (\<lambda>p. case p of PathStr s \<Rightarrow> [s] | PathTuple parts \<Rightarrow> parts),
      get_task_info = (\<lambda>t. Inr ()),
      perform = (\<lambda>ev. Inr ())\<rparr>"

section \<open>Properties of snippets\<close>

lemma lstrip_decomp: "\<exists>ws. cs = ws @ lstrip cs \<and> list_all is_space ws"
proof (induction cs)
  case Nil
  show ?case by simp
next
  case (Cons c cs)
  show ?case
  proof (cases "is_space c")
    case True
    from Cons obtain ws where "cs = ws @ lstrip cs" "list_all is_space ws" by blast
    with True have "c # cs = (c # ws) @ lstrip (c # cs) \<and> list_all is_space (c # ws)"
      by simp
    then show ?thesis by blast
  next
    case False
    then have "c # cs = [] @ lstrip (c # cs) \<and> list_all is_space []" by simp
    then show ?thesis by blast
  qed
qed

lemma lstrip_head: "lstrip cs = c # rest \<Longrightarrow> \<not> is_space c"
  by (induction cs) (auto split: if_splits)

lemma rstrip_decomp: "\<exists>ws. cs = rstrip cs @ ws \<and> list_all is_space ws"
proof -
  obtain ws where ws: "rev cs = ws @ lstrip (rev cs)" "list_all is_space ws"
    using lstrip_decomp by blast
  from ws(1) have "cs = rev (lstrip (rev cs)) @ rev ws"
    by (metis rev_append rev_rev_ident)
  moreover from ws(2) have "list_all is_space (rev ws)"
    by (simp add: list_all_iff)
  ultimately show ?thesis unfolding rstrip_def by blast
qed

lemma rstrip_last: "rstrip cs = rest @ [c] \<Longrightarrow> \<not> is_space c"
proof -
  assume "rstrip cs = rest @ [c]"
  then have "rev (rev (lstrip (rev cs))) = rev (rest @ [c])"
    unfolding rstrip_def by (rule arg_cong)
  then have "lstrip (rev cs) = c # rev rest" by simp
  then show ?thesis by (rule lstrip_head)
qed

lemma rstrip_head:
  assumes "\<not> is_space c" shows "rstrip (c # cs) = c # rstrip cs"
proof -
  have "\<And>xs. lstrip (xs @ [c]) = lstrip xs @ [c]"
  proof -
    fix xs show "lstrip (xs @ [c]) = lstrip xs @ [c]"
      using assms by (induction xs) auto
  qed
  then show ?thesis by (simp add: rstrip_def)
qed

lemma strip_decomp:
  "\<exists>ws1 ws2. cs = ws1 @ strip cs @ ws2 \<and> list_all is_space ws1 \<and> list_all is_space ws2"
proof -
  obtain ws1 where a: "cs = ws1 @ lstrip cs" "list_all is_space ws1"
    using lstrip_decomp by blast
  obtain ws2 where b: "lstrip cs = rstrip (lstrip cs) @ ws2" "list_all is_space ws2"
    using rstrip_decomp by blast
  from a(1) b(1) have "cs = ws1 @ strip cs @ ws2" by (simp add: strip_def)
  with a(2) b(2) show ?thesis by blast
qed

lemma strip_ends:
  "strip cs = [] \<or> (\<not> is_space (hd (strip cs)) \<and> \<not> is_space (last (strip cs)))"
proof (cases "strip cs")
  case Nil
  then show ?thesis by simp
next
  case (Cons c rest)
  have l: "\<not> is_space (last (strip cs))"
  proof -
    from Cons have "strip cs \<noteq> []" by simp
    then obtain r x where "strip cs = r @ [x]" by (metis rev_exhaust)
    then show ?thesis using rstrip_last [of "lstrip cs" r x] by (simp add: strip_def)
  qed
  have h: "\<not> is_space (hd (strip cs))"
  proof (cases "lstrip cs")
    case Nil
    with Cons show ?thesis by (simp add: strip_def rstrip_def)
  next
    case (Cons d ds)
    then have "\<not> is_space d" by (rule lstrip_head)
    then show ?thesis using Cons by (simp add: strip_def rstrip_head)
  qed
  from l h show ?thesis by blast
qed

lemma strip_padded:
  assumes "\<not> is_space c" and "0 < n"
  shows "strip (32 # replicate n c @ [10]) = replicate n c"
proof -
  from assms(2) obtain k where n: "n = Suc k" by (cases n) auto
  have sp: "is_space 32" "is_space 10" by (simp_all add: is_space_def)
  have l: "lstrip (32 # replicate n c @ [10]) = replicate n c @ [10]"
    using assms(1) sp by (simp add: n)
  have r: "rev (replicate n c @ [10]) = 10 # c # replicate k c"
    by (simp add: n replicate_append_same)
  have "lstrip (10 # c # replicate k c) = c # replicate k c"
    using assms(1) sp by simp
  then have "lstrip (rev (replicate n c @ [10])) = c # replicate k c"
    by (simp only: r)
  then have "rev (lstrip (rev (replicate n c @ [10]))) = rev (c # replicate k c)"
    by (rule arg_cong)
  then have "rstrip (replicate n c @ [10]) = replicate n c"
    by (simp add: rstrip_def n replicate_append_same)
  with l show ?thesis by (simp add: strip_def)
qed

text \<open>
  C6. \<open>_snippet_to_prefix_and_suffix\<close> strips surrounding whitespace first (the input is
  whitespace, the stripped text, whitespace; the stripped text neither starts nor ends with
  whitespace). A stripped text of at most 400 code points is returned unchanged. A longer
  one becomes its first 200 code points, the marker \<open>'\n...\n'\<close> and its last 200 code
  points: 405 code points that begin and end as the stripped text does.
\<close>

theorem snippet_to_prefix_and_suffix_spec:
  "(\<exists>ws1 ws2. s = ws1 @ strip s @ ws2 \<and> list_all is_space ws1 \<and> list_all is_space ws2) \<and>
   (strip s = [] \<or> (\<not> is_space (hd (strip s)) \<and> \<not> is_space (last (strip s)))) \<and>
   (length (strip s) \<le> 400 \<longrightarrow> snippet_to_prefix_and_suffix s = strip s) \<and>
   (400 < length (strip s) \<longrightarrow>
      snippet_to_prefix_and_suffix s =
        take 200 (strip s) @ [10, 46, 46, 46, 10] @ drop (length (strip s) - 200) (strip s) \<and>
      length (snippet_to_prefix_and_suffix s) = 405 \<and>
      take 200 (snippet_to_prefix_and_suffix s) = take 200 (strip s) \<and>
      drop 205 (snippet_to_prefix_and_suffix s) = drop (length (strip s) - 200) (strip s))"
proof -
  let ?t = "strip s" and ?r = "snippet_to_prefix_and_suffix s"
  have short: "length ?t \<le> 400 \<longrightarrow> ?r = ?t"
    by (simp add: snippet_to_prefix_and_suffix_def SHORTEN_LEN_def)
  have long: "?r = take 200 ?t @ [10, 46, 46, 46, 10] @ drop (length ?t - 200) ?t"
    if "400 < length ?t"
    using that
    by (simp add: snippet_to_prefix_and_suffix_def SHORTEN_LEN_def
        slice_to_def slice_last_def ellipsis_marker_def Let_def)
  have ends: "length ?r = 405 \<and> take 200 ?r = take 200 ?t \<and>
      drop 205 ?r = drop (length ?t - 200) ?t" if h: "400 < length ?t"
  proof -
    have l: "length (take 200 ?t) = 200" using h by simp
    from long [OF h] l h show ?thesis by simp
  qed
  from strip_decomp [of s] strip_ends [of s] short long ends show ?thesis by blast
qed

theorem snippet_to_prefix_and_suffix_witness:
  "snippet_to_prefix_and_suffix (ustr '' ab '') = ustr ''ab'' \<and>
   length (snippet_to_prefix_and_suffix (32 # replicate 401 97 @ [10])) = 405"
proof -
  have a: "strip (ustr '' ab '') = ustr ''ab''"
    by (simp add: strip_def rstrip_def ustr_def is_space_def)
  have "strip (32 # replicate 401 97 @ [10]) = replicate 401 97"
    by (rule strip_padded) (simp_all add: is_space_def)
  then have b: "length (strip (32 # replicate 401 97 @ [10])) = 401" by simp
  from snippet_to_prefix_and_suffix_spec [of "ustr '' ab ''"] a
  have "snippet_to_prefix_and_suffix (ustr '' ab '') = ustr ''ab''"
    by (simp add: ustr_def)
  moreover from snippet_to_prefix_and_suffix_spec [of "32 # replicate 401 97 @ [10]"] b
  have "length (snippet_to_prefix_and_suffix (32 # replicate 401 97 @ [10])) = 405"
    by simp
  ultimately show ?thesis by simp
qed

section \<open>Properties of the density clustering core\<close>

subsection \<open>Runs in sequence\<close>

lemma andthen_Inr [simp]: "andthen (tr, Inr x) f = (tr @ fst (f x), snd (f x))"
  by (simp add: andthen_def split: prod.splits)

lemma andthen_Inl [simp]: "andthen (tr, Inl e) f = (tr, Inl e)"
  by (simp add: andthen_def)

lemma andthen_unit [simp]: "andthen (unit x) f = f x"
  by (simp add: andthen_def unit_def split: prod.splits)

lemma andthen_lift_Inr [simp]: "andthen (lift (Inr x)) f = f x"
  by (simp add: andthen_def lift_def split: prod.splits)

lemma andthen_lift_Inl [simp]: "andthen (lift (Inl e)) f = ([], Inl e)"
  by (simp add: andthen_def lift_def)

lemma andthen_call_Inr [simp]:
  "andthen (call ev (Inr x)) f = (ev # fst (f x), snd (f x))"
  by (simp add: andthen_def call_def split: prod.splits)

lemma andthen_call_Inl [simp]: "andthen (call ev (Inl e)) f = ([ev], Inl e)"
  by (simp add: andthen_def call_def)

lemma fst_andthen:
  "fst (andthen m f) = fst m @ (case snd m of Inl e \<Rightarrow> [] | Inr x \<Rightarrow> fst (f x))"
  by (cases m) (auto simp: andthen_def split: sum.splits prod.splits)

subsection \<open>The loops of the noise reassignment\<close>

lemma collect_noisy_eq:
  "length cs + i \<le> length vs \<Longrightarrow>
   collect_noisy cs i vs = Inr (noise_vectors cs (drop i vs))"
proof (induction cs arbitrary: i)
  case Nil
  show ?case by (simp add: noise_vectors_def)
next
  case (Cons c cs)
  from Cons.prems have i: "i < length vs" by simp
  then have d: "drop i vs = vs ! i # drop (Suc i) vs" by (simp add: Cons_nth_drop_Suc)
  from Cons.prems have "length cs + Suc i \<le> length vs" by simp
  then have ih: "collect_noisy cs (Suc i) vs = Inr (noise_vectors cs (drop (Suc i) vs))"
    by (rule Cons.IH)
  show ?case using i ih by (simp add: d noise_vectors_def)
qed

lemma collect_noisy_none:
  "noise_count cs = 0 \<Longrightarrow> collect_noisy cs i vs = Inr []"
  by (induction cs arbitrary: i) (auto simp: noise_count_def split: if_splits)

lemma length_noise_vectors:
  "length cs \<le> length vs \<Longrightarrow> length (noise_vectors cs vs) = noise_count cs"
proof (induction cs arbitrary: vs)
  case Nil
  show ?case by (simp add: noise_vectors_def noise_count_def)
next
  case (Cons c cs)
  then obtain v vs' where "vs = v # vs'" by (cases vs) auto
  with Cons show ?case by (auto simp: noise_vectors_def noise_count_def)
qed

lemma yield_from_eq: "yield_from its = (map Yield its, Inr ())"
  by (induction its) (auto simp: unit_def)

lemma concat_chunks: "0 < n \<Longrightarrow> concat (chunks xs n) = xs"
proof (induction xs n rule: chunks.induct)
  case (1 xs n)
  show ?case
  proof (cases "xs = []")
    case True
    then show ?thesis by (simp add: chunks.simps)
  next
    case False
    with 1 show ?thesis by (subst chunks.simps) simp
  qed
qed

lemma soft_batches_eq:
  assumes "\<forall>batch \<in> set bs. \<exists>soft. membership_vector env c (np_float32 env batch) = Inr soft \<and>
          length (as_rows soft) = length batch \<and> [] \<notin> set (as_rows soft)"
  shows "soft_batches env c bs =
     (map (\<lambda>b. MembershipVector (np_float32 env b)) bs,
      Inr (map (\<lambda>b. map (\<lambda>r. int (argmax r)) (case membership_vector env c (np_float32 env b) of Inl e \<Rightarrow> [] | Inr s \<Rightarrow> as_rows s)) bs,
           map (\<lambda>b. map amax (case membership_vector env c (np_float32 env b) of Inl e \<Rightarrow> [] | Inr s \<Rightarrow> as_rows s)) bs))"
  using assms
proof (induction bs)
  case Nil
  show ?case by (simp add: unit_def)
next
  case (Cons b bs)
  from Cons.prems obtain soft where s: "membership_vector env c (np_float32 env b) = Inr soft"
    "[] \<notin> set (as_rows soft)" by auto
  from Cons have ih: "soft_batches env c bs =
     (map (\<lambda>b. MembershipVector (np_float32 env b)) bs,
      Inr (map (\<lambda>b. map (\<lambda>r. int (argmax r)) (case membership_vector env c (np_float32 env b) of Inl e \<Rightarrow> [] | Inr s \<Rightarrow> as_rows s)) bs,
           map (\<lambda>b. map amax (case membership_vector env c (np_float32 env b) of Inl e \<Rightarrow> [] | Inr s \<Rightarrow> as_rows s)) bs))"
    by simp
  from s(2) have ne: "\<not> list_ex (\<lambda>r. r = []) (as_rows soft)"
    by (auto simp: list_ex_iff)
  show ?case
    by (simp add: s(1) ne np_argmax_axis1_def np_max_axis1_def ih unit_def Let_def)
qed

lemma amax_eq: "row \<noteq> [] \<Longrightarrow> amax row = Max (set row)"
proof -
  assume "row \<noteq> []"
  then obtain x xs where r: "row = x # xs" by (cases row) auto
  have "foldl max x xs = fold max xs x"
    by (simp add: foldl_conv_fold max.commute)
  moreover have "Max (set (x # xs)) = fold max xs x" by (rule Max.set_eq_fold)
  ultimately show ?thesis by (simp add: r amax_def del: set_simps)
qed

lemma argmax_from_props:
  assumes "bi < length ys" "ys ! bi = best" "i = length ys"
    and "\<forall>j<length ys. ys ! j \<le> best" "\<forall>j<bi. ys ! j < best"
  shows "argmax_from best bi i xs < length (ys @ xs) \<and>
         (ys @ xs) ! argmax_from best bi i xs = Max (set (ys @ xs)) \<and>
         (\<forall>j<argmax_from best bi i xs. (ys @ xs) ! j < Max (set (ys @ xs)))"
  using assms
proof (induction xs arbitrary: best bi i ys)
  case Nil
  have "best \<in> set ys" using Nil(1,2) by (metis nth_mem)
  moreover have "\<forall>y\<in>set ys. y \<le> best" using Nil(4) by (metis in_set_conv_nth)
  ultimately have "Max (set ys) = best" by (intro Max_eqI) auto
  with Nil show ?case by simp
next
  case (Cons x xs)
  show ?case
  proof (cases "best < x")
    case True
    have "argmax_from x i (Suc i) xs < length ((ys @ [x]) @ xs) \<and>
         ((ys @ [x]) @ xs) ! argmax_from x i (Suc i) xs = Max (set ((ys @ [x]) @ xs)) \<and>
         (\<forall>j<argmax_from x i (Suc i) xs. ((ys @ [x]) @ xs) ! j < Max (set ((ys @ [x]) @ xs)))"
    proof (rule Cons.IH)
      show "i < length (ys @ [x])" using Cons.prems(3) by simp
      show "(ys @ [x]) ! i = x" using Cons.prems(3) by simp
      show "Suc i = length (ys @ [x])" using Cons.prems(3) by simp
      show "\<forall>j<length (ys @ [x]). (ys @ [x]) ! j \<le> x"
        using Cons.prems(4) True by (auto simp: nth_append less_Suc_eq intro: order.trans less_imp_le)
      show "\<forall>j<i. (ys @ [x]) ! j < x"
        using Cons.prems(3,4) True by (auto simp: nth_append intro: le_less_trans)
    qed
    with True show ?thesis by simp
  next
    case False
    have "argmax_from best bi (Suc i) xs < length ((ys @ [x]) @ xs) \<and>
         ((ys @ [x]) @ xs) ! argmax_from best bi (Suc i) xs = Max (set ((ys @ [x]) @ xs)) \<and>
         (\<forall>j<argmax_from best bi (Suc i) xs. ((ys @ [x]) @ xs) ! j < Max (set ((ys @ [x]) @ xs)))"
    proof (rule Cons.IH)
      show "bi < length (ys @ [x])" using Cons.prems(1) by simp
      show "(ys @ [x]) ! bi = best" using Cons.prems(1,2) by (simp add: nth_append)
      show "Suc i = length (ys @ [x])" using Cons.prems(3) by simp
      show "\<forall>j<length (ys @ [x]). (ys @ [x]) ! j \<le> best"
        using Cons.prems(4) False by (auto simp: nth_append less_Suc_eq)
      show "\<forall>j<bi. (ys @ [x]) ! j < best"
        using Cons.prems(1,5) by (auto simp: nth_append)
    qed
    with False show ?thesis by simp
  qed
qed

lemma argmax_props:
  assumes "row \<noteq> []"
  shows "argmax row < length row \<and> row ! argmax row = Max (set row) \<and>
         (\<forall>j<argmax row. row ! j < Max (set row))"
proof -
  from assms obtain x xs where r: "row = x # xs" by (cases row) auto
  have "argmax_from x 0 1 xs < length ([x] @ xs) \<and>
         ([x] @ xs) ! argmax_from x 0 1 xs = Max (set ([x] @ xs)) \<and>
         (\<forall>j<argmax_from x 0 1 xs. ([x] @ xs) ! j < Max (set ([x] @ xs)))"
    by (rule argmax_from_props) auto
  then show ?thesis by (simp add: r argmax_def)
qed

lemma noise_rank_Cons:
  "noise_rank (c # cs) (Suc j) = (if c = - 1 then Suc (noise_rank cs j) else noise_rank cs j)"
  by (simp add: noise_rank_def noise_count_def)

lemma noise_rank_0 [simp]: "noise_rank cs 0 = 0"
  by (simp add: noise_rank_def noise_count_def)

lemma noise_count_Cons:
  "noise_count (c # cs) = (if c = - 1 then Suc (noise_count cs) else noise_count cs)"
  by (simp add: noise_count_def)

lemma reassign_loop_ok:
  assumes "i + length cs = length L" "length M = length L"
    and "k + noise_count cs \<le> length nl" "k + noise_count cs \<le> length np"
  shows "\<exists>L' M'. reassign_loop cs i k nl np L M = Inr (L', M') \<and>
           length L' = length L \<and> length M' = length M \<and>
           (\<forall>j<length L. L' ! j = (if i \<le> j \<and> cs ! (j - i) = - 1
                                   then nl ! (k + noise_rank cs (j - i)) else L ! j)) \<and>
           (\<forall>j<length L. M' ! j = (if i \<le> j \<and> cs ! (j - i) = - 1
                                   then np ! (k + noise_rank cs (j - i)) else M ! j))"
  using assms
proof (induction cs arbitrary: i k L M)
  case Nil
  then show ?case by simp
next
  case (Cons c cs)
  show ?case
  proof (cases "c = - 1")
    case False
    from Cons.prems False have
      "\<exists>L' M'. reassign_loop cs (Suc i) k nl np L M = Inr (L', M') \<and>
           length L' = length L \<and> length M' = length M \<and>
           (\<forall>j<length L. L' ! j = (if Suc i \<le> j \<and> cs ! (j - Suc i) = - 1
                                   then nl ! (k + noise_rank cs (j - Suc i)) else L ! j)) \<and>
           (\<forall>j<length L. M' ! j = (if Suc i \<le> j \<and> cs ! (j - Suc i) = - 1
                                   then np ! (k + noise_rank cs (j - Suc i)) else M ! j))"
      by (intro Cons.IH) (auto simp: noise_count_Cons)
    then obtain L' M' where r: "reassign_loop cs (Suc i) k nl np L M = Inr (L', M')"
      "length L' = length L" "length M' = length M"
      "\<forall>j<length L. L' ! j = (if Suc i \<le> j \<and> cs ! (j - Suc i) = - 1
                                   then nl ! (k + noise_rank cs (j - Suc i)) else L ! j)"
      "\<forall>j<length L. M' ! j = (if Suc i \<le> j \<and> cs ! (j - Suc i) = - 1
                                   then np ! (k + noise_rank cs (j - Suc i)) else M ! j)"
      by blast
    have idx: "\<And>j. i \<le> j \<Longrightarrow> j \<noteq> i \<Longrightarrow> j - i = Suc (j - Suc i)" by arith
    have "\<forall>j<length L. L' ! j = (if i \<le> j \<and> (c # cs) ! (j - i) = - 1
                                   then nl ! (k + noise_rank (c # cs) (j - i)) else L ! j)"
    proof (intro allI impI)
      fix j assume j: "j < length L"
      show "L' ! j = (if i \<le> j \<and> (c # cs) ! (j - i) = - 1
                                   then nl ! (k + noise_rank (c # cs) (j - i)) else L ! j)"
      proof (cases "i < j")
        case True
        then have "j - i = Suc (j - Suc i)" by arith
        with r(4) j True False show ?thesis by (simp add: noise_rank_Cons)
      next
        case f: False
        with r(4) j False show ?thesis by (cases "j = i") auto
      qed
    qed
    moreover have "\<forall>j<length L. M' ! j = (if i \<le> j \<and> (c # cs) ! (j - i) = - 1
                                   then np ! (k + noise_rank (c # cs) (j - i)) else M ! j)"
    proof (intro allI impI)
      fix j assume j: "j < length L"
      show "M' ! j = (if i \<le> j \<and> (c # cs) ! (j - i) = - 1
                                   then np ! (k + noise_rank (c # cs) (j - i)) else M ! j)"
      proof (cases "i < j")
        case True
        then have "j - i = Suc (j - Suc i)" by arith
        with r(5) j True False show ?thesis by (simp add: noise_rank_Cons)
      next
        case f: False
        with r(5) j False show ?thesis by (cases "j = i") auto
      qed
    qed
    ultimately show ?thesis using r(1,2,3) False by simp
  next
    case True
    let ?L = "L[i := nl ! k]" and ?M = "M[i := np ! k]"
    from Cons.prems True have
      "\<exists>L' M'. reassign_loop cs (Suc i) (Suc k) nl np ?L ?M = Inr (L', M') \<and>
           length L' = length ?L \<and> length M' = length ?M \<and>
           (\<forall>j<length ?L. L' ! j = (if Suc i \<le> j \<and> cs ! (j - Suc i) = - 1
                                   then nl ! (Suc k + noise_rank cs (j - Suc i)) else ?L ! j)) \<and>
           (\<forall>j<length ?L. M' ! j = (if Suc i \<le> j \<and> cs ! (j - Suc i) = - 1
                                   then np ! (Suc k + noise_rank cs (j - Suc i)) else ?M ! j))"
      by (intro Cons.IH) (auto simp: noise_count_Cons)
    then obtain L' M' where r: "reassign_loop cs (Suc i) (Suc k) nl np ?L ?M = Inr (L', M')"
      "length L' = length L" "length M' = length M"
      "\<forall>j<length L. L' ! j = (if Suc i \<le> j \<and> cs ! (j - Suc i) = - 1
                                   then nl ! (Suc k + noise_rank cs (j - Suc i)) else ?L ! j)"
      "\<forall>j<length L. M' ! j = (if Suc i \<le> j \<and> cs ! (j - Suc i) = - 1
                                   then np ! (Suc k + noise_rank cs (j - Suc i)) else ?M ! j)"
      by auto
    have il: "i < length L" "i < length M" using Cons.prems by auto
    have kl: "k < length nl" "k < length np" using Cons.prems True by (auto simp: noise_count_Cons)
    have "\<forall>j<length L. L' ! j = (if i \<le> j \<and> (c # cs) ! (j - i) = - 1
                                   then nl ! (k + noise_rank (c # cs) (j - i)) else L ! j)"
    proof (intro allI impI)
      fix j assume j: "j < length L"
      show "L' ! j = (if i \<le> j \<and> (c # cs) ! (j - i) = - 1
                                   then nl ! (k + noise_rank (c # cs) (j - i)) else L ! j)"
      proof (cases "i < j")
        case t: True
        then have "j - i = Suc (j - Suc i)" by arith
        with r(4) j t True show ?thesis by (simp add: noise_rank_Cons)
      next
        case f: False
        with r(4) j True il show ?thesis by (cases "j = i") auto
      qed
    qed
    moreover have "\<forall>j<length L. M' ! j = (if i \<le> j \<and> (c # cs) ! (j - i) = - 1
                                   then np ! (k + noise_rank (c # cs) (j - i)) else M ! j)"
    proof (intro allI impI)
      fix j assume j: "j < length L"
      show "M' ! j = (if i \<le> j \<and> (c # cs) ! (j - i) = - 1
                                   then np ! (k + noise_rank (c # cs) (j - i)) else M ! j)"
      proof (cases "i < j")
        case t: True
        then have "j - i = Suc (j - Suc i)" by arith
        with r(5) j t True show ?thesis by (simp add: noise_rank_Cons)
      next
        case f: False
        with r(5) j True il Cons.prems(2) show ?thesis by (cases "j = i") auto
      qed
    qed
    ultimately show ?thesis using r(1,2,3) True il kl by simp
  qed
qed

subsection \<open>Which stage calls which collaborator\<close>

lemma umap_calls_append [simp]: "umap_calls (xs @ ys) = umap_calls xs @ umap_calls ys"
  by (induction xs rule: umap_calls.induct) auto

lemma hdbscan_calls_append [simp]:
  "hdbscan_calls (xs @ ys) = hdbscan_calls xs @ hdbscan_calls ys"
  by (induction xs rule: hdbscan_calls.induct) auto

lemma umap_calls_andthen_nil:
  "(\<And>x. umap_calls (fst (f x)) = []) \<Longrightarrow>
   umap_calls (fst (andthen m f)) = umap_calls (fst m)"
  by (simp add: fst_andthen split: sum.splits)

lemma hdbscan_calls_andthen_nil:
  "(\<And>x. hdbscan_calls (fst (f x)) = []) \<Longrightarrow>
   hdbscan_calls (fst (andthen m f)) = hdbscan_calls (fst m)"
  by (simp add: fst_andthen split: sum.splits)

lemma umap_calls_soft_batches [simp]: "umap_calls (fst (soft_batches env c bs)) = []"
  by (induction bs)
    (auto simp: unit_def fst_andthen lift_def call_def Let_def split: sum.splits prod.splits)

lemma hdbscan_calls_soft_batches [simp]: "hdbscan_calls (fst (soft_batches env c bs)) = []"
  by (induction bs)
    (auto simp: unit_def fst_andthen lift_def call_def Let_def split: sum.splits prod.splits)

lemma umap_calls_yield_from [simp]: "umap_calls (fst (yield_from its)) = []"
  by (induction its) (auto simp: unit_def)

lemma hdbscan_calls_yield_from [simp]: "hdbscan_calls (fst (yield_from its)) = []"
  by (induction its) (auto simp: unit_def)

lemma umap_calls_reassign_noise [simp]: "umap_calls (fst (reassign_noise env c vs)) = []"
  by (auto simp: reassign_noise_def fst_andthen lift_def unit_def Let_def
      split: sum.splits prod.splits)

lemma hdbscan_calls_reassign_noise [simp]:
  "hdbscan_calls (fst (reassign_noise env c vs)) = []"
  by (auto simp: reassign_noise_def fst_andthen lift_def unit_def Let_def
      split: sum.splits prod.splits)

lemma umap_calls_after_fit [simp]:
  "umap_calls (fst (andthen (reassign_noise env c vs) (\<lambda>(labels, memberships).
     yield_from (map to_item (zip labels memberships))))) = []"
  by (simp add: fst_andthen split: sum.splits prod.splits)

lemma hdbscan_calls_after_fit [simp]:
  "hdbscan_calls (fst (andthen (reassign_noise env c vs) (\<lambda>(labels, memberships).
     yield_from (map to_item (zip labels memberships))))) = []"
  by (simp add: fst_andthen split: sum.splits prod.splits)

lemma first_embeddings_length: "first_embeddings rs = Inr es \<Longrightarrow> length es = length rs"
  by (induction rs arbitrary: es) (auto split: list.splits sum.splits)

lemma embed_stage_Inr:
  assumes "embed_stage env docs = (tr, Inr vs)"
  shows "tr = [JinaCompute (fst (list_of docs))] \<and>
         (\<exists>response. jina_compute env (fst (list_of docs)) = Inr response \<and>
            length vs = length response)"
  using assms
  by (auto simp: embed_stage_def Let_def andthen_def call_def lift_def np_array_def
      np_float32_def
      dest: first_embeddings_length split: sum.splits prod.splits if_splits)

lemma reduce_stage_umap_calls:
  "umap_calls (fst (reduce_stage env vs)) =
     (if 5 < length (hd vs) \<and> 5 < length vs
      then [(umap_config (min 30 (int (length vs) - 1)), vs)] else [])"
  by (cases vs)
    (auto simp: reduce_stage_def first_size_def UMAP_DIM_def call_def unit_def Let_def)

lemma reduce_stage_hdbscan_calls [simp]: "hdbscan_calls (fst (reduce_stage env vs)) = []"
  by (cases vs)
    (auto simp: reduce_stage_def first_size_def UMAP_DIM_def call_def unit_def Let_def)

lemma reduce_stage_Inr:
  assumes "reduce_stage env vs0 = (tr, Inr vs)"
  shows "vs0 \<noteq> []"
  using assms by (cases vs0) (auto simp: reduce_stage_def first_size_def)

lemma local_steps_stages:
  assumes e: "embed_stage env docs = (tr1, Inr vs0)"
  shows "local_steps env docs m =
     andthen (tr1 @ fst (reduce_stage env vs0), snd (reduce_stage env vs0)) (\<lambda>vs.
     andthen (fit_stage env m vs) (\<lambda>c.
     andthen (reassign_noise env c vs) (\<lambda>(labels, memberships).
       yield_from (map to_item (zip labels memberships)))))"
  by (cases "reduce_stage env vs0"; cases "snd (reduce_stage env vs0)")
    (auto simp: local_steps_def cluster_stage_def e andthen_def unit_def
      split: sum.splits prod.splits)

lemma reduce_stage_result:
  assumes "all_vectors \<noteq> []"
  shows "reduce_stage env all_vectors =
     (if 5 < length (hd all_vectors) \<and> 5 < length all_vectors
      then ([UmapFit (umap_config (min 30 (int (length all_vectors) - 1))) all_vectors],
            umap_fit_transform env (umap_config (min 30 (int (length all_vectors) - 1)))
              all_vectors)
      else ([], Inr all_vectors))"
  using assms
  by (cases all_vectors)
    (auto simp: reduce_stage_def first_size_def UMAP_DIM_def call_def unit_def Let_def lift_def
      andthen_def)

lemma clustered_vectors:
  assumes "embed_stage env docs = (tr1, Inr vs0)"
    and "reduce_stage env vs0 = (tr2, Inr vs)"
  shows "map snd (hdbscan_calls (fst (local_steps env docs m))) = [vs]"
proof -
  from embed_stage_Inr [OF assms(1)]
  have tr: "tr1 = [JinaCompute (fst (list_of docs))]" by simp
  have tr2: "hdbscan_calls tr2 = []"
    using reduce_stage_hdbscan_calls [of env vs0] assms(2) by simp
  show ?thesis
    unfolding local_steps_stages [OF assms(1)] assms(2)
    by (simp add: fst_andthen tr tr2 fit_stage_def call_def Let_def split: sum.splits)
qed

lemma reduction_fails:
  assumes "embed_stage env docs = (tr1, Inr vs0)"
    and "reduce_stage env vs0 = (tr2, Inl e)"
  shows "hdbscan_calls (fst (local_steps env docs m)) = [] \<and>
         snd (local_steps env docs m) = Inl e"
proof -
  from embed_stage_Inr [OF assms(1)]
  have tr: "tr1 = [JinaCompute (fst (list_of docs))]" by simp
  have tr2: "hdbscan_calls tr2 = []"
    using reduce_stage_hdbscan_calls [of env vs0] assms(2) by simp
  show ?thesis
    unfolding local_steps_stages [OF assms(1)] assms(2)
    by (simp add: tr tr2)
qed

text \<open>
  C7. On a local run (\<open>remote=False\<close>) whose embedding step succeeds, with one embedding
  per document, \<open>N\<close> is the number of documents and the native dimension is the size of the
  first vector. UMAP is called if and only if \<open>5 < dimension\<close> and \<open>5 < N\<close>; the call is
  then the only one, on all the vectors, with \<open>n_components = 5\<close>,
  \<open>n_neighbors = min(30, N - 1)\<close>, \<open>min_dist = 0\<close>, \<open>n_jobs = -1\<close> and the seed 42. When
  UMAP is called, the vectors it returns replace the embeddings: they are what is
  clustered, and an exception of the reduction ends the run before any clustering. When it
  is not called, the embeddings themselves are clustered.
\<close>

theorem umap_gating:
  assumes "embed_stage env docs = (tr, Inr all_vectors)"
    and "jina_contract env"
  shows "length all_vectors = length (fst (list_of docs)) \<and>
         umap_calls (fst (hdbscan_cluster env docs m False)) =
           (if 5 < length (hd all_vectors) \<and> 5 < length (fst (list_of docs))
            then [(\<lparr>n_components = 5,
                    n_neighbors = min 30 (int (length (fst (list_of docs))) - 1),
                    min_dist = 0, n_jobs = - 1, random_state = 42\<rparr>, all_vectors)]
            else []) \<and>
         (if 5 < length (hd all_vectors) \<and> 5 < length (fst (list_of docs))
          then
            (case umap_fit_transform env
                    \<lparr>n_components = 5,
                     n_neighbors = min 30 (int (length (fst (list_of docs))) - 1),
                     min_dist = 0, n_jobs = - 1, random_state = 42\<rparr> all_vectors of
               Inr reduced \<Rightarrow>
                 map snd (hdbscan_calls (fst (hdbscan_cluster env docs m False))) = [reduced]
             | Inl e \<Rightarrow>
                 hdbscan_calls (fst (hdbscan_cluster env docs m False)) = [] \<and>
                 snd (hdbscan_cluster env docs m False) = Inl e)
          else
            all_vectors = [] \<or>
            map snd (hdbscan_calls (fst (hdbscan_cluster env docs m False))) = [all_vectors])"
proof -
  let ?N = "length (fst (list_of docs))"
  let ?cond = "5 < length (hd all_vectors) \<and> 5 < ?N"
  let ?params = "\<lparr>n_components = 5, n_neighbors = min 30 (int ?N - 1),
                    min_dist = 0, n_jobs = - 1, random_state = 42\<rparr>"
  from embed_stage_Inr [OF assms(1)] assms(2)
  have tr: "tr = [JinaCompute (fst (list_of docs))]"
    and n: "length all_vectors = ?N"
    by (auto simp: jina_contract_def)
  have cfg: "umap_config (min 30 (int (length all_vectors) - 1)) = ?params"
    by (simp add: umap_config_def UMAP_DIM_def UMAP_SEED_def n)
  have run: "hdbscan_cluster env docs m False = local_steps env docs m"
    by (simp add: hdbscan_cluster_def)
  have "umap_calls (fst (local_steps env docs m)) =
        umap_calls (fst (reduce_stage env all_vectors))"
    unfolding local_steps_stages [OF assms(1)]
    by (simp add: fst_andthen tr fit_stage_def call_def Let_def split: sum.splits)
  then have calls: "umap_calls (fst (hdbscan_cluster env docs m False)) =
      (if ?cond then [(?params, all_vectors)] else [])"
    using n by (simp add: run reduce_stage_umap_calls umap_config_def UMAP_DIM_def UMAP_SEED_def)
  have replaced: "case umap_fit_transform env ?params all_vectors of
               Inr reduced \<Rightarrow>
                 map snd (hdbscan_calls (fst (hdbscan_cluster env docs m False))) = [reduced]
             | Inl e \<Rightarrow>
                 hdbscan_calls (fst (hdbscan_cluster env docs m False)) = [] \<and>
                 snd (hdbscan_cluster env docs m False) = Inl e" if c: ?cond
  proof -
    from c n have ne: "all_vectors \<noteq> []" by auto
    from c n have c': "5 < length (hd all_vectors) \<and> 5 < length all_vectors" by simp
    have r: "reduce_stage env all_vectors =
        ([UmapFit ?params all_vectors], umap_fit_transform env ?params all_vectors)"
      using reduce_stage_result [OF ne, of env] c' by (simp add: cfg)
    show ?thesis
    proof (cases "umap_fit_transform env ?params all_vectors")
      case (Inr reduced)
      with r have "reduce_stage env all_vectors = ([UmapFit ?params all_vectors], Inr reduced)"
        by simp
      from clustered_vectors [OF assms(1) this, of m] Inr show ?thesis by (simp add: run)
    next
      case (Inl e)
      with r have "reduce_stage env all_vectors = ([UmapFit ?params all_vectors], Inl e)"
        by simp
      from reduction_fails [OF assms(1) this, of m] Inl show ?thesis by (simp add: run)
    qed
  qed
  have kept: "all_vectors = [] \<or>
      map snd (hdbscan_calls (fst (hdbscan_cluster env docs m False))) = [all_vectors]"
    if c: "\<not> ?cond"
  proof (cases "all_vectors = []")
    case True
    then show ?thesis by simp
  next
    case False
    from c n have "\<not> (5 < length (hd all_vectors) \<and> 5 < length all_vectors)" by simp
    with reduce_stage_result [OF False, of env]
    have "reduce_stage env all_vectors = ([], Inr all_vectors)" by simp
    from clustered_vectors [OF assms(1) this, of m] show ?thesis by (simp add: run)
  qed
  show ?thesis
  proof (cases ?cond)
    case True
    with n calls replaced [OF True] show ?thesis by simp
  next
    case False
    with n calls kept [OF False] show ?thesis by simp
  qed
qed


subsection \<open>Noise reassignment\<close>

lemma cluster_stage_Inr:
  assumes "cluster_stage env docs m = (tr, Inr (vs, c))"
    and "umap_contract env" and "hdbscan_contract env"
  shows "vs \<noteq> [] \<and> length (fit_labels c) = length vs \<and>
         length (fit_probabilities c) = length vs"
proof -
  from assms(1) obtain tr1 vs0 tr2 tr3 where
    e: "embed_stage env docs = (tr1, Inr vs0)" and
    r: "reduce_stage env vs0 = (tr2, Inr vs)" and
    f: "fit_stage env m vs = (tr3, Inr c)"
    by (auto simp: cluster_stage_def andthen_def unit_def split: prod.splits sum.splits)
  from r have "vs0 \<noteq> []" by (rule reduce_stage_Inr)
  moreover have "length vs = length vs0"
    using r assms(2)
    by (cases vs0)
      (auto simp: reduce_stage_def first_size_def umap_contract_def call_def unit_def Let_def
        split: if_splits)
  moreover have "length (fit_labels c) = length vs \<and> length (fit_probabilities c) = length vs"
    using f assms(3) by (auto simp: fit_stage_def call_def Let_def hdbscan_contract_def)
  ultimately show ?thesis by auto
qed

lemma local_steps_after_cluster_stage:
  assumes "cluster_stage env docs m = (tr, Inr (vs, c))"
  shows "local_steps env docs m =
     andthen (tr @ fst (reassign_noise env c vs), snd (reassign_noise env c vs))
       (\<lambda>(labels, memberships). yield_from (map to_item (zip labels memberships)))"
  by (cases "reassign_noise env c vs"; cases "snd (reassign_noise env c vs)")
    (auto simp: local_steps_def assms)

lemma noise_count_le: "noise_count cs \<le> length cs"
  by (simp add: noise_count_def)

lemma reassign_noise_skip:
  assumes "labels \<noteq> []" and "length labels = length vs"
    and "noise_count labels = 0 \<or> noise_count labels = length labels"
    and "labels = fit_labels c"
  shows "reassign_noise env c vs = ([], Inr (fit_labels c, fit_probabilities c))"
proof -
  have p: "perc_noisy_check labels = Inr ()"
    using assms(1) by (simp add: perc_noisy_check_def)
  from assms(3) show ?thesis
  proof
    assume z: "noise_count labels = 0"
    then have "collect_noisy labels 0 vs = Inr []" by (rule collect_noisy_none)
    with p show ?thesis
      by (simp add: reassign_noise_def assms(4) [symmetric] unit_def)
  next
    assume a: "noise_count labels = length labels"
    have "collect_noisy labels 0 vs = Inr (noise_vectors labels (drop 0 vs))"
      by (rule collect_noisy_eq) (simp add: assms(2))
    moreover have "length (noise_vectors labels vs) = noise_count labels"
      by (rule length_noise_vectors) (simp add: assms(2))
    ultimately show ?thesis
      using p a by (simp add: reassign_noise_def assms(4) [symmetric] unit_def)
  qed
qed

text \<open>
  C3. On a local run that has clustered its vectors, when no point is labelled noise or
  every point is, the reassignment step calls the soft membership on nothing and returns
  the labels and probabilities of the clusterer as they are; the run yields exactly these,
  point by point.
\<close>

theorem noise_reassignment_skipped:
  assumes "cluster_stage env docs m = (tr, Inr (all_vectors, clusterer))"
    and "umap_contract env" and "hdbscan_contract env"
    and "noise_count (fit_labels clusterer) = 0 \<or>
         noise_count (fit_labels clusterer) = length (fit_labels clusterer)"
  shows "reassign_noise env clusterer all_vectors =
           ([], Inr (fit_labels clusterer, fit_probabilities clusterer)) \<and>
         hdbscan_cluster env docs m False =
           (tr @ map Yield (map to_item
                  (zip (fit_labels clusterer) (fit_probabilities clusterer))), Inr ())"
proof -
  from cluster_stage_Inr [OF assms(1,2,3)]
  have ne: "all_vectors \<noteq> []" and l: "length (fit_labels clusterer) = length all_vectors"
    by auto
  from ne l have "fit_labels clusterer \<noteq> []" by auto
  then have r: "reassign_noise env clusterer all_vectors =
           ([], Inr (fit_labels clusterer, fit_probabilities clusterer))"
    using l assms(4) by (intro reassign_noise_skip [where labels = "fit_labels clusterer"]) auto
  show ?thesis
    by (simp add: r hdbscan_cluster_def local_steps_after_cluster_stage [OF assms(1)]
        yield_from_eq)
qed

lemma noise_rank_less:
  "i < length cs \<Longrightarrow> cs ! i = - 1 \<Longrightarrow> noise_rank cs i < noise_count cs"
proof -
  assume i: "i < length cs" and n: "cs ! i = - 1"
  have "cs = take i cs @ cs ! i # drop (Suc i) cs"
    using i by (simp add: id_take_nth_drop)
  then have "noise_count cs = noise_count (take i cs @ cs ! i # drop (Suc i) cs)" by simp
  also have "\<dots> = noise_count (take i cs) + Suc (noise_count (drop (Suc i) cs))"
    using n by (simp add: noise_count_def)
  finally show ?thesis by (simp add: noise_rank_def)
qed

lemma length_concat_same:
  "\<forall>b\<in>set bs. length (g b) = length b \<Longrightarrow> length (concat (map g bs)) = length (concat bs)"
  by (induction bs) auto

lemma soft_rows_props:
  assumes "membership_ok env c noisy"
  shows "length (soft_rows env c noisy) = length noisy \<and> [] \<notin> set (soft_rows env c noisy)"
proof -
  let ?g = "\<lambda>batch. case membership_vector env c (np_float32 env batch) of
                             Inl e \<Rightarrow> [] | Inr soft_clusters \<Rightarrow> as_rows soft_clusters"
  let ?bs = "chunks noisy BATCH_SOFT_CLUSTER_NOISE"
  have g: "\<forall>b\<in>set ?bs. length (?g b) = length b \<and> [] \<notin> set (?g b)"
    using assms by (fastforce simp: membership_ok_def)
  then have "length (concat (map ?g ?bs)) = length (concat ?bs)"
    by (intro length_concat_same) auto
  moreover have "concat ?bs = noisy"
    by (rule concat_chunks) (simp add: BATCH_SOFT_CLUSTER_NOISE_def)
  moreover have "[] \<notin> set (concat (map ?g ?bs))" using g by auto
  ultimately show ?thesis by (simp add: soft_rows_def)
qed

lemma soft_batches_rows:
  assumes "membership_ok env c noisy"
  shows "\<exists>nls nps. soft_batches env c (chunks noisy BATCH_SOFT_CLUSTER_NOISE) =
           (map (\<lambda>b. MembershipVector (np_float32 env b))
              (chunks noisy BATCH_SOFT_CLUSTER_NOISE), Inr (nls, nps)) \<and>
           concat nls = map (\<lambda>r. int (argmax r)) (soft_rows env c noisy) \<and>
           concat nps = map amax (soft_rows env c noisy)"
proof -
  have "\<forall>batch \<in> set (chunks noisy BATCH_SOFT_CLUSTER_NOISE).
          \<exists>soft. membership_vector env c (np_float32 env batch) = Inr soft \<and>
          length (as_rows soft) = length batch \<and> [] \<notin> set (as_rows soft)"
    using assms by (simp add: membership_ok_def)
  from soft_batches_eq [OF this] show ?thesis
    by (simp add: soft_rows_def map_concat comp_def)
qed

text \<open>
  C2, with the probability in single precision, as the code yields it. On a local run that has clustered its vectors, when some but not all
  points are labelled noise and the soft membership returns one non-empty row for each
  noise vector, the run calls the soft membership on the batches of noise vectors and then
  yields one item per point. For a noise point the row is the one at its rank among the
  noise points; the yielded cluster id is the index of the first maximum of that row, and
  the yielded probability is that maximum rounded to single precision. Every other point
  keeps its label and probability. One noise point among clustered points is an instance.
\<close>

theorem noise_reassignment:
  assumes "cluster_stage env docs m = (tr, Inr (all_vectors, clusterer))"
    and "umap_contract env" and "hdbscan_contract env"
    and "labels = fit_labels clusterer"
    and "0 < noise_count labels" and "noise_count labels < length labels"
    and "noisy = noise_vectors labels all_vectors"
    and "membership_ok env clusterer noisy"
  shows "\<exists>items.
     hdbscan_cluster env docs m False =
       (tr @ map (\<lambda>batch. MembershipVector (np_float32 env batch)) (chunks noisy 1024) @
        map Yield items, Inr ()) \<and>
     length items = length labels \<and>
     length (soft_rows env clusterer noisy) = noise_count labels \<and>
     (\<forall>i<length labels.
        if labels ! i = - 1 then
          (let row = soft_rows env clusterer noisy ! noise_rank labels i in
           row \<noteq> [] \<and> argmax row < length row \<and> row ! argmax row = Max (set row) \<and>
           (\<forall>j<argmax row. row ! j < Max (set row)) \<and>
           cluster_id (items ! i) = int (argmax row) \<and>
           cluster_membership_prob (items ! i) = to_float32 env (Max (set row)))
        else items ! i = to_item (labels ! i, fit_probabilities clusterer ! i))"
proof -
  let ?probs = "fit_probabilities clusterer"
  let ?rows = "soft_rows env clusterer noisy"
  from cluster_stage_Inr [OF assms(1,2,3)] assms(4)
  have l: "length labels = length all_vectors" and lp: "length ?probs = length labels"
    by auto
  have cn: "collect_noisy labels 0 all_vectors = Inr noisy"
    using collect_noisy_eq [of labels 0 all_vectors] l assms(7) by simp
  have ln: "length noisy = noise_count labels"
    unfolding assms(7) by (rule length_noise_vectors) (simp add: l)
  from soft_rows_props [OF assms(8)]
  have lr: "length ?rows = noise_count labels" and ne: "[] \<notin> set ?rows"
    by (auto simp: ln)
  from soft_batches_rows [OF assms(8)] obtain nls nps where
    sb: "soft_batches env clusterer (chunks noisy BATCH_SOFT_CLUSTER_NOISE) =
           (map (\<lambda>b. MembershipVector (np_float32 env b))
              (chunks noisy BATCH_SOFT_CLUSTER_NOISE), Inr (nls, nps))"
    and nl: "concat nls = map (\<lambda>r. int (argmax r)) ?rows"
    and np: "concat nps = map amax ?rows"
    by blast
  let ?np = "map (to_float32 env) (concat nps)"
  have "\<exists>L' M'. reassign_loop labels 0 0 (concat nls) ?np labels ?probs = Inr (L', M') \<and>
           length L' = length labels \<and> length M' = length ?probs \<and>
           (\<forall>j<length labels. L' ! j = (if 0 \<le> j \<and> labels ! (j - 0) = - 1
                                   then concat nls ! (0 + noise_rank labels (j - 0)) else labels ! j)) \<and>
           (\<forall>j<length labels. M' ! j = (if 0 \<le> j \<and> labels ! (j - 0) = - 1
                                   then ?np ! (0 + noise_rank labels (j - 0)) else ?probs ! j))"
    by (rule reassign_loop_ok) (simp_all add: lp nl np lr)
  then obtain L' M' where
    rl: "reassign_loop labels 0 0 (concat nls) ?np labels ?probs = Inr (L', M')"
    and lL: "length L' = length labels" and lM: "length M' = length labels"
    and L: "\<forall>j<length labels. L' ! j =
              (if labels ! j = - 1 then concat nls ! noise_rank labels j else labels ! j)"
    and M: "\<forall>j<length labels. M' ! j =
              (if labels ! j = - 1 then ?np ! noise_rank labels j else ?probs ! j)"
    by (auto simp: lp)
  have p: "perc_noisy_check labels = Inr ()"
    using assms(6) by (auto simp: perc_noisy_check_def)
  have rn: "reassign_noise env clusterer all_vectors =
        (map (\<lambda>b. MembershipVector (np_float32 env b))
           (chunks noisy BATCH_SOFT_CLUSTER_NOISE), Inr (L', M'))"
  proof -
    have nne: "noisy \<noteq> []" using ln assms(5) by auto
    show ?thesis
      using cn p ln assms(5,6) sb rl nne
      by (simp add: reassign_noise_def assms(4) [symmetric] lift_def Let_def)
  qed
  let ?items = "map to_item (zip L' M')"
  have run: "hdbscan_cluster env docs m False =
       (tr @ map (\<lambda>batch. MembershipVector (np_float32 env batch)) (chunks noisy 1024) @
        map Yield ?items, Inr ())"
    by (simp add: rn hdbscan_cluster_def local_steps_after_cluster_stage [OF assms(1)]
        yield_from_eq BATCH_SOFT_CLUSTER_NOISE_def)
  have li: "length ?items = length labels" by (simp add: lL lM)
  have each: "if labels ! i = - 1 then
          (let row = ?rows ! noise_rank labels i in
           row \<noteq> [] \<and> argmax row < length row \<and> row ! argmax row = Max (set row) \<and>
           (\<forall>j<argmax row. row ! j < Max (set row)) \<and>
           cluster_id (?items ! i) = int (argmax row) \<and>
           cluster_membership_prob (?items ! i) = to_float32 env (Max (set row)))
        else ?items ! i = to_item (labels ! i, ?probs ! i)" if i: "i < length labels" for i
  proof (cases "labels ! i = - 1")
    case True
    let ?row = "?rows ! noise_rank labels i"
    have r: "noise_rank labels i < length ?rows"
      using noise_rank_less [OF i True] by (simp add: lr)
    then have rne: "?row \<noteq> []" using ne by (metis nth_mem)
    have it: "?items ! i = to_item (int (argmax ?row), to_float32 env (amax ?row))"
      using i L M True r by (simp add: lL lM nl np)
    from argmax_props [OF rne] amax_eq [OF rne] rne it True show ?thesis
      by (simp add: to_item_def Let_def)
  next
    case False
    with i L M show ?thesis by (simp add: lL lM)
  qed
  from run li lr each show ?thesis by blast
qed

subsection \<open>Runs with the concrete collaborators\<close>

lemma demo_contracts:
  "jina_contract demo_env" "umap_contract demo_env" "hdbscan_contract demo_env"
  by (auto simp: jina_contract_def umap_contract_def hdbscan_contract_def demo_env_def)

lemma demo_embed_six:
  "embed_stage demo_env (DocList six_docs) =
     ([JinaCompute six_docs],
      Inr [[1, 0, 0, 0, 0, 0], [2, 0, 0, 0, 0, 0], [1, 0, 0, 0, 0, 0],
           [3, 0, 0, 0, 0, 0], [2, 0, 0, 0, 0, 0], [1, 0, 0, 0, 0, 0]])"
  by code_simp

text \<open>
  With \<open>remote=True\<close> the whole document list is compressed and sent, and the entries of
  the response's \<open>clusters\<close> are yielded first; what follows them is the run of the local
  steps on what is left of \<open>docs\<close>.
\<close>

lemma remote_run_prefix:
  assumes "remote_fn env (compress_docs env (fst (list_of docs))) = Inr response"
    and "response ''clusters'' = Some clusters"
  shows "hdbscan_cluster env docs m True =
     (RemoteCall (compress_docs env (fst (list_of docs))) # map Yield clusters @
        fst (local_steps env (snd (list_of docs)) m),
      snd (local_steps env (snd (list_of docs)) m))"
  by (simp add: hdbscan_cluster_def assms yield_from_eq Let_def)

text \<open>
  C1. The claim that a remote run performs none of the local steps fails on the code: the
  \<open>if remote:\<close> block has no \<open>return\<close>. Driven to its end, the run on an iterator of one
  document yields the remote entry, calls the embedding provider on the emptied iterator
  and raises \<open>IndexError\<close> at \<open>all_vectors[0]\<close>; the run on a list of one document yields
  the remote entry, then embeds and clusters the document and yields a second item.
\<close>

theorem remote_run_continues_locally:
  "hdbscan_cluster demo_env (DocIter [doc_a]) 5 True =
     ([RemoteCall [1], Yield \<lparr>cluster_id = 0, cluster_membership_prob = 1\<rparr>, JinaCompute []],
      Inl IndexError) \<and>
   hdbscan_cluster demo_env (DocList [doc_a]) 5 True =
     ([RemoteCall [1], Yield \<lparr>cluster_id = 0, cluster_membership_prob = 1\<rparr>,
       JinaCompute [doc_a],
       HdbscanFit \<lparr>min_cluster_size = 1, min_samples = 0, cluster_selection_epsilon = 5 / 100,
                   cluster_selection_method = ''leaf'', prediction_data = True\<rparr>
         [[1, 0, 0, 0, 0, 0]],
       Yield \<lparr>cluster_id = 0, cluster_membership_prob = 1\<rparr>],
      Inr ())"
  by code_simp

lemma demo_embed_two:
  "embed_stage demo_env (DocList [doc_a, []]) =
     ([JinaCompute [doc_a, []]], Inr [[1, 0, 0, 0, 0, 0], [0, 0, 0, 0, 0, 0]])"
  by code_simp

text \<open>
  Six documents with six-dimensional embeddings: the reduction is applied and its
  five-dimensional vectors are clustered. Two documents: no reduction, and the embeddings
  are clustered.
\<close>

theorem umap_gating_witness:
  "jina_contract demo_env \<and>
   umap_calls (fst (hdbscan_cluster demo_env (DocList six_docs) 5 False)) =
     [(\<lparr>n_components = 5, n_neighbors = 5, min_dist = 0, n_jobs = - 1, random_state = 42\<rparr>,
       [[1, 0, 0, 0, 0, 0], [2, 0, 0, 0, 0, 0], [1, 0, 0, 0, 0, 0],
        [3, 0, 0, 0, 0, 0], [2, 0, 0, 0, 0, 0], [1, 0, 0, 0, 0, 0]])] \<and>
   map snd (hdbscan_calls (fst (hdbscan_cluster demo_env (DocList six_docs) 5 False))) =
     [[[1, 0, 0, 0, 0], [2, 0, 0, 0, 0], [1, 0, 0, 0, 0],
       [3, 0, 0, 0, 0], [2, 0, 0, 0, 0], [1, 0, 0, 0, 0]]] \<and>
   umap_calls (fst (hdbscan_cluster demo_env (DocList [doc_a, []]) 5 False)) = [] \<and>
   map snd (hdbscan_calls (fst (hdbscan_cluster demo_env (DocList [doc_a, []]) 5 False))) =
     [[[1, 0, 0, 0, 0, 0], [0, 0, 0, 0, 0, 0]]]"
proof -
  have u: "umap_fit_transform demo_env
      \<lparr>n_components = 5, n_neighbors = 5, min_dist = 0, n_jobs = - 1, random_state = 42\<rparr>
      [[1, 0, 0, 0, 0, 0], [2, 0, 0, 0, 0, 0], [1, 0, 0, 0, 0, 0],
       [3, 0, 0, 0, 0, 0], [2, 0, 0, 0, 0, 0], [1, 0, 0, 0, 0, 0]] =
     Inr [[1, 0, 0, 0, 0], [2, 0, 0, 0, 0], [1, 0, 0, 0, 0],
          [3, 0, 0, 0, 0], [2, 0, 0, 0, 0], [1, 0, 0, 0, 0]]"
    by (simp add: demo_env_def)
  from umap_gating [OF demo_embed_six demo_contracts(1), of 5] u
  have six: "umap_calls (fst (hdbscan_cluster demo_env (DocList six_docs) 5 False)) =
     [(\<lparr>n_components = 5, n_neighbors = 5, min_dist = 0, n_jobs = - 1, random_state = 42\<rparr>,
       [[1, 0, 0, 0, 0, 0], [2, 0, 0, 0, 0, 0], [1, 0, 0, 0, 0, 0],
        [3, 0, 0, 0, 0, 0], [2, 0, 0, 0, 0, 0], [1, 0, 0, 0, 0, 0]])] \<and>
     map snd (hdbscan_calls (fst (hdbscan_cluster demo_env (DocList six_docs) 5 False))) =
     [[[1, 0, 0, 0, 0], [2, 0, 0, 0, 0], [1, 0, 0, 0, 0],
       [3, 0, 0, 0, 0], [2, 0, 0, 0, 0], [1, 0, 0, 0, 0]]]"
    by (simp add: six_docs_def)
  from umap_gating [OF demo_embed_two demo_contracts(1), of 5]
  have two: "umap_calls (fst (hdbscan_cluster demo_env (DocList [doc_a, []]) 5 False)) = [] \<and>
     map snd (hdbscan_calls (fst (hdbscan_cluster demo_env (DocList [doc_a, []]) 5 False))) =
     [[[1, 0, 0, 0, 0, 0], [0, 0, 0, 0, 0, 0]]]"
    by simp
  from demo_contracts(1) six two show ?thesis by blast
qed



lemma demo_cluster_all_noise:
  "cluster_stage demo_env (DocList [[], []]) 5 =
     ([JinaCompute [[], []],
       HdbscanFit (hdbscan_config 2) [[0, 0, 0, 0, 0, 0], [0, 0, 0, 0, 0, 0]]],
      Inr ([[0, 0, 0, 0, 0, 0], [0, 0, 0, 0, 0, 0]],
           \<lparr>fit_labels = [- 1, - 1], fit_probabilities = [1, 1]\<rparr>))"
  by code_simp

lemma demo_cluster_no_noise:
  "cluster_stage demo_env (DocList [doc_a]) 5 =
     ([JinaCompute [doc_a], HdbscanFit (hdbscan_config 1) [[1, 0, 0, 0, 0, 0]]],
      Inr ([[1, 0, 0, 0, 0, 0]], \<lparr>fit_labels = [0], fit_probabilities = [1]\<rparr>))"
  by code_simp

text \<open>Two documents that are both noise, and one document that is not.\<close>

theorem noise_reassignment_skipped_witness:
  "hdbscan_cluster demo_env (DocList [[], []]) 5 False =
     ([JinaCompute [[], []],
       HdbscanFit (hdbscan_config 2) [[0, 0, 0, 0, 0, 0], [0, 0, 0, 0, 0, 0]],
       Yield \<lparr>cluster_id = - 1, cluster_membership_prob = 1\<rparr>,
       Yield \<lparr>cluster_id = - 1, cluster_membership_prob = 1\<rparr>], Inr ()) \<and>
   hdbscan_cluster demo_env (DocList [doc_a]) 5 False =
     ([JinaCompute [doc_a], HdbscanFit (hdbscan_config 1) [[1, 0, 0, 0, 0, 0]],
       Yield \<lparr>cluster_id = 0, cluster_membership_prob = 1\<rparr>], Inr ())"
  using noise_reassignment_skipped [OF demo_cluster_all_noise demo_contracts(2,3)]
    noise_reassignment_skipped [OF demo_cluster_no_noise demo_contracts(2,3)]
  by (simp add: noise_count_def to_item_def)

lemma demo_cluster_one_noise:
  "cluster_stage demo_env (DocList [doc_a, []]) 5 =
     ([JinaCompute [doc_a, []],
       HdbscanFit (hdbscan_config 2) [[1, 0, 0, 0, 0, 0], [0, 0, 0, 0, 0, 0]]],
      Inr ([[1, 0, 0, 0, 0, 0], [0, 0, 0, 0, 0, 0]],
           \<lparr>fit_labels = [0, - 1], fit_probabilities = [1, 1]\<rparr>))"
  by code_simp

lemma demo_chunks_one: "chunks [v] 1024 = [[v]]"
  by (simp add: chunks.simps)

lemma demo_round: "float32_round (1073741823 / 1073741824) = 1"
  by code_simp

text \<open>
  One clustered point and one noise point, whose soft membership is \<open>[1/2, 1 - 2 ** -30]\<close>:
  the noise point goes to cluster 1 with probability 1, the rounding of \<open>1 - 2 ** -30\<close>.
\<close>

theorem noise_reassignment_witness:
  "\<exists>items.
     hdbscan_cluster demo_env (DocList [doc_a, []]) 5 False =
       ([JinaCompute [doc_a, []],
         HdbscanFit (hdbscan_config 2) [[1, 0, 0, 0, 0, 0], [0, 0, 0, 0, 0, 0]],
         MembershipVector [[0, 0, 0, 0, 0, 0]]] @ map Yield items, Inr ()) \<and>
     length items = 2 \<and>
     items ! 0 = \<lparr>cluster_id = 0, cluster_membership_prob = 1\<rparr> \<and>
     cluster_id (items ! 1) = 1 \<and> cluster_membership_prob (items ! 1) = 1"
proof -
  let ?c = "\<lparr>fit_labels = [0, - 1], fit_probabilities = [1, 1::rat]\<rparr>"
  let ?noisy = "[[0, 0, 0, 0, 0, 0::rat]]"
  let ?row = "[1 / 2, 1073741823 / 1073741824 :: rat]"
  have nv: "?noisy = noise_vectors [0, - 1] [[1, 0, 0, 0, 0, 0], [0, 0, 0, 0, 0, 0]]"
    by (simp add: noise_vectors_def)
  have ok: "membership_ok demo_env ?c ?noisy"
    by (simp add: membership_ok_def BATCH_SOFT_CLUSTER_NOISE_def demo_chunks_one demo_env_def
        np_float32_def)
  have rows: "soft_rows demo_env ?c ?noisy = [?row]"
    by (simp add: soft_rows_def BATCH_SOFT_CLUSTER_NOISE_def demo_chunks_one demo_env_def
        np_float32_def)
  have batch: "np_float32 demo_env ?noisy = ?noisy"
    by (simp add: np_float32_def demo_env_def float32_round_def)
  have am: "argmax ?row = 1" by (simp add: argmax_def)
  have mx: "Max (set ?row) = 1073741823 / 1073741824" by simp
  have rd: "to_float32 demo_env (1073741823 / 1073741824) = 1"
    by (simp add: demo_env_def demo_round)
  from noise_reassignment [OF demo_cluster_one_noise demo_contracts(2,3), of "[0, - 1]" ?noisy]
    nv ok
  obtain items where
    run: "hdbscan_cluster demo_env (DocList [doc_a, []]) 5 False =
       ([JinaCompute [doc_a, []],
         HdbscanFit (hdbscan_config 2) [[1, 0, 0, 0, 0, 0], [0, 0, 0, 0, 0, 0]]] @
        map (\<lambda>batch. MembershipVector (np_float32 demo_env batch)) (chunks ?noisy 1024) @
        map Yield items, Inr ())"
    and len: "length items = length [0, - 1 :: int]"
    and each: "\<forall>i<length [0, - 1 :: int].
        if [0, - 1 :: int] ! i = - 1 then
          (let row = soft_rows demo_env ?c ?noisy ! noise_rank [0, - 1] i in
           row \<noteq> [] \<and> argmax row < length row \<and> row ! argmax row = Max (set row) \<and>
           (\<forall>j<argmax row. row ! j < Max (set row)) \<and>
           cluster_id (items ! i) = int (argmax row) \<and>
           cluster_membership_prob (items ! i) = to_float32 demo_env (Max (set row)))
        else items ! i = to_item ([0, - 1] ! i, fit_probabilities ?c ! i)"
    by (auto simp: noise_count_def)
  from each have z: "items ! 0 = to_item (0, 1)"
    by (auto dest: spec [of _ 0])
  from each have "let row = soft_rows demo_env ?c ?noisy ! noise_rank [0, - 1] 1 in
           cluster_id (items ! 1) = int (argmax row) \<and>
           cluster_membership_prob (items ! 1) = to_float32 demo_env (Max (set row))"
    by (auto dest!: spec [of _ 1] simp: Let_def)
  then have "cluster_id (items ! 1) = int (argmax ?row) \<and>
           cluster_membership_prob (items ! 1) = to_float32 demo_env (Max (set ?row))"
    by (simp add: rows noise_rank_def noise_count_def Let_def del: set_simps)
  then have o: "cluster_id (items ! 1) = 1 \<and> cluster_membership_prob (items ! 1) = 1"
    by (simp only: am mx rd) simp
  from run have run': "hdbscan_cluster demo_env (DocList [doc_a, []]) 5 False =
       ([JinaCompute [doc_a, []],
         HdbscanFit (hdbscan_config 2) [[1, 0, 0, 0, 0, 0], [0, 0, 0, 0, 0, 0]],
         MembershipVector [[0, 0, 0, 0, 0, 0]]] @ map Yield items, Inr ())"
    by (simp add: demo_chunks_one batch)
  from run' len z o show ?thesis
    by (intro exI [of _ items]) (simp add: to_item_def)
qed

text \<open>
  The same run refutes the claim as it was stated: the soft membership of the noise point
  has the maximum \<open>1 - 2 ** -30\<close>, and the probability yielded for it is 1.
\<close>

theorem noise_probability_is_rounded:
  "hdbscan_cluster demo_env (DocList [doc_a, []]) 5 False =
     ([JinaCompute [doc_a, []],
       HdbscanFit (hdbscan_config 2) [[1, 0, 0, 0, 0, 0], [0, 0, 0, 0, 0, 0]],
       MembershipVector [[0, 0, 0, 0, 0, 0]],
       Yield \<lparr>cluster_id = 0, cluster_membership_prob = 1\<rparr>,
       Yield \<lparr>cluster_id = 1, cluster_membership_prob = 1\<rparr>], Inr ()) \<and>
   soft_rows demo_env \<lparr>fit_labels = [0, - 1], fit_probabilities = [1, 1]\<rparr>
     [[0, 0, 0, 0, 0, 0]] = [[1 / 2, 1073741823 / 1073741824]] \<and>
   Max (set [1 / 2, 1073741823 / 1073741824 :: rat]) = 1073741823 / 1073741824 \<and>
   (1073741823 / 1073741824 :: rat) < 1"
proof -
  have run: "hdbscan_cluster demo_env (DocList [doc_a, []]) 5 False =
     ([JinaCompute [doc_a, []],
       HdbscanFit (hdbscan_config 2) [[1, 0, 0, 0, 0, 0], [0, 0, 0, 0, 0, 0]],
       MembershipVector [[0, 0, 0, 0, 0, 0]],
       Yield \<lparr>cluster_id = 0, cluster_membership_prob = 1\<rparr>,
       Yield \<lparr>cluster_id = 1, cluster_membership_prob = 1\<rparr>], Inr ())"
    by code_simp
  have rows: "soft_rows demo_env \<lparr>fit_labels = [0, - 1], fit_probabilities = [1, 1]\<rparr>
     [[0, 0, 0, 0, 0, 0]] = [[1 / 2, 1073741823 / 1073741824]]"
    by (simp add: soft_rows_def BATCH_SOFT_CLUSTER_NOISE_def demo_chunks_one demo_env_def
        np_float32_def)
  have mx: "Max (set [1 / 2, 1073741823 / 1073741824 :: rat]) = 1073741823 / 1073741824"
    by simp
  from run rows mx show ?thesis by simp
qed

section \<open>Properties of the labeler\<close>

lemma retrying_result:
  "outcome n = Inr v \<Longrightarrow> retrying policy outcome draw n = ([Attempt n], Inr v)"
  by (subst retrying.simps) simp

lemma retrying_reraise:
  "outcome n = Inl e \<Longrightarrow> e \<notin> set (retry_types policy) \<Longrightarrow>
   retrying policy outcome draw n = ([Attempt n], Inl e)"
  by (subst retrying.simps) simp

lemma retrying_again:
  "outcome n = Inl e \<Longrightarrow> e \<in> set (retry_types policy) \<Longrightarrow> n < stop_attempts policy \<Longrightarrow>
   retrying policy outcome draw n =
     (Attempt n # Sleep (wait_random_exponential policy draw n) #
        fst (retrying policy outcome draw (Suc n)),
      snd (retrying policy outcome draw (Suc n)))"
  by (subst retrying.simps) (simp add: split_beta)

lemma retrying_from:
  assumes "retry_types policy = [RateLimitError, APITimeoutError]"
    and "stop_attempts policy = 10" and "n \<le> 10"
  shows "\<exists>k. n \<le> k \<and> k \<le> 10 \<and>
     fst (retrying policy outcome draw n) =
       concat (map (\<lambda>j. [Attempt j, Sleep (wait_random_exponential policy draw j)]) [n..<k]) @
       [Attempt k] \<and>
     (\<forall>j. n \<le> j \<and> j < k \<longrightarrow>
        outcome j = Inl RateLimitError \<or> outcome j = Inl APITimeoutError) \<and>
     (case outcome k of
        Inr result \<Rightarrow> snd (retrying policy outcome draw n) = Inr result
      | Inl exc \<Rightarrow>
          if exc = RateLimitError \<or> exc = APITimeoutError
          then k = 10 \<and> snd (retrying policy outcome draw n) = Inl (RetryError exc)
          else snd (retrying policy outcome draw n) = Inl exc)"
  using assms
proof (induction policy outcome draw n rule: retrying.induct)
  case (1 policy outcome draw n)
  let ?w = "wait_random_exponential policy draw"
  show ?case
  proof (cases "outcome n")
    case (Inr result)
    then have "retrying policy outcome draw n = ([Attempt n], Inr result)"
      by (subst retrying.simps) simp
    with Inr "1.prems"(3) show ?thesis
      by (intro exI [of _ n]) auto
  next
    case (Inl exc)
    show ?thesis
    proof (cases "exc = RateLimitError \<or> exc = APITimeoutError")
      case False
      with Inl "1.prems"(1) have "retrying policy outcome draw n = ([Attempt n], Inl exc)"
        by (subst retrying.simps) auto
      with Inl False "1.prems"(3) show ?thesis
        by (intro exI [of _ n]) auto
    next
      case True
      then have mem: "\<not> exc \<notin> set (retry_types policy)" using "1.prems"(1) by auto
      show ?thesis
      proof (cases "n = 10")
        case t: True
        with Inl mem "1.prems"(2)
        have "retrying policy outcome draw n = ([Attempt n], Inl (RetryError exc))"
          by (subst retrying.simps) auto
        with Inl True t show ?thesis
          by (intro exI [of _ n]) auto
      next
        case f: False
        with "1.prems"(2,3) have ns: "\<not> stop_attempts policy \<le> n" and sn: "Suc n \<le> 10"
          by auto
        from "1.IH" [OF Inl mem ns "1.prems"(1,2) sn]
        obtain k where k: "Suc n \<le> k" "k \<le> 10"
          "fst (retrying policy outcome draw (Suc n)) =
             concat (map (\<lambda>j. [Attempt j, Sleep (?w j)]) [Suc n..<k]) @ [Attempt k]"
          "\<forall>j. Suc n \<le> j \<and> j < k \<longrightarrow>
             outcome j = Inl RateLimitError \<or> outcome j = Inl APITimeoutError"
          "case outcome k of
             Inr result \<Rightarrow> snd (retrying policy outcome draw (Suc n)) = Inr result
           | Inl exc \<Rightarrow>
               if exc = RateLimitError \<or> exc = APITimeoutError
               then k = 10 \<and> snd (retrying policy outcome draw (Suc n)) = Inl (RetryError exc)
               else snd (retrying policy outcome draw (Suc n)) = Inl exc"
          by blast
        have step: "retrying policy outcome draw n =
            (Attempt n # Sleep (?w n) # fst (retrying policy outcome draw (Suc n)),
             snd (retrying policy outcome draw (Suc n)))"
          using Inl mem ns by (subst retrying.simps) (simp add: split_beta)
        have up: "[n..<k] = n # [Suc n..<k]" using k(1) by (simp add: upt_conv_Cons)
        have tr: "fst (retrying policy outcome draw n) =
            concat (map (\<lambda>j. [Attempt j, Sleep (?w j)]) [n..<k]) @ [Attempt k]"
          by (simp add: step k(3) up)
        have before: "\<forall>j. n \<le> j \<and> j < k \<longrightarrow>
             outcome j = Inl RateLimitError \<or> outcome j = Inl APITimeoutError"
        proof (intro allI impI)
          fix j assume j: "n \<le> j \<and> j < k"
          show "outcome j = Inl RateLimitError \<or> outcome j = Inl APITimeoutError"
          proof (cases "j = n")
            case True
            with Inl \<open>exc = RateLimitError \<or> exc = APITimeoutError\<close> show ?thesis by auto
          next
            case False
            with j k(4) show ?thesis by auto
          qed
        qed
        have last: "case outcome k of
             Inr result \<Rightarrow> snd (retrying policy outcome draw n) = Inr result
           | Inl exc \<Rightarrow>
               if exc = RateLimitError \<or> exc = APITimeoutError
               then k = 10 \<and> snd (retrying policy outcome draw n) = Inl (RetryError exc)
               else snd (retrying policy outcome draw n) = Inl exc"
        proof -
          have sn: "snd (retrying policy outcome draw n) =
                snd (retrying policy outcome draw (Suc n))"
            by (simp add: step)
          show ?thesis unfolding sn by (rule k(5))
        qed
        from k(1,2) tr before last show ?thesis
          by (intro exI [of _ k]) auto
      qed
    qed
  qed
qed

lemma retrying_stop:
  "outcome n = Inl e \<Longrightarrow> e \<in> set (retry_types policy) \<Longrightarrow> stop_attempts policy \<le> n \<Longrightarrow>
   retrying policy outcome draw n = ([Attempt n], Inl (RetryError e))"
  by (subst retrying.simps) simp

lemma wait_exact:
  assumes "wait_multiplier policy = 1 / 2" and "wait_max policy = 60"
  shows "wait_random_exponential policy draw j = draw j * min 60 ((1 / 2) * 2 ^ (j - 1))"
proof -
  let ?h = "min 60 ((1 / 2) * 2 ^ (j - 1)) :: rat"
  have "0 \<le> ?h" by simp
  then have m: "max 0 ?h = ?h" by simp
  have "wait_random_exponential policy draw j = draw j * max 0 ?h"
    by (simp add: wait_random_exponential_def assms min.commute)
  then show ?thesis by (simp only: m)
qed

lemma retrying_contract:
  assumes "retry_types policy = [RateLimitError, APITimeoutError]"
    and "stop_attempts policy = 10"
    and "wait_multiplier policy = 1 / 2" and "wait_max policy = 60"
  shows "retry_contract outcome draw (retrying policy outcome draw 1)"
proof -
  let ?w = "wait_random_exponential policy draw"
  from retrying_from [OF assms(1,2), of 1 outcome draw]
  obtain k where k: "1 \<le> k" "k \<le> 10"
     "fst (retrying policy outcome draw 1) =
       concat (map (\<lambda>j. [Attempt j, Sleep (?w j)]) [1..<k]) @ [Attempt k]"
     "\<forall>j. 1 \<le> j \<and> j < k \<longrightarrow>
        outcome j = Inl RateLimitError \<or> outcome j = Inl APITimeoutError"
     "case outcome k of
        Inr result \<Rightarrow> snd (retrying policy outcome draw 1) = Inr result
      | Inl exc \<Rightarrow>
          if exc = RateLimitError \<or> exc = APITimeoutError
          then k = 10 \<and> snd (retrying policy outcome draw 1) = Inl (RetryError exc)
          else snd (retrying policy outcome draw 1) = Inl exc"
    by auto
  have w: "?w = (\<lambda>j. draw j * min 60 ((1 / 2) * 2 ^ (j - 1)))"
    using wait_exact [OF assms(3,4)] by (intro ext)
  show ?thesis
    unfolding retry_contract_def
    using k unfolding w by (intro exI [of _ k]) auto
qed

lemma sleep_bounds:
  fixes d :: rat
  assumes "0 \<le> d" and "d \<le> 1"
  shows "0 \<le> d * min 60 ((1 / 2) * 2 ^ (j - 1)) \<and>
         d * min 60 ((1 / 2) * 2 ^ (j - 1)) \<le> min 60 ((1 / 2) * 2 ^ (j - 1))"
proof -
  let ?h = "min 60 ((1 / 2) * 2 ^ (j - 1)) :: rat"
  have h: "0 \<le> ?h" by simp
  have "d * ?h \<le> 1 * ?h" using assms(2) h by (rule mult_right_mono)
  moreover have "0 \<le> d * ?h" using assms(1) h by (rule mult_nonneg_nonneg)
  ultimately show ?thesis by simp
qed

text \<open>
  C4. When the \<open>openai\<close> package is installed, the runs of \<open>summarize_request\<close> and of
  \<open>generate_category\<close> keep the retry contract against the outcomes of their requests: at
  most 10 attempts; a further attempt only after a rate-limit or a timeout error; any other
  exception raised again at the attempt where it occurs; after attempt \<open>j\<close>, when another
  follows, a sleep of the random number drawn times \<open>min(60, 0.5 * 2 ** (j - 1))\<close> seconds,
  which for random numbers in \<open>[0, 1]\<close> lies between zero and that bound.
\<close>

theorem labeler_retry_policy:
  assumes "openai_installed backend"
    and "\<forall>n. 0 \<le> random_draw backend n \<and> random_draw backend n \<le> 1"
  shows "retry_contract (chat_create backend TitleGenerator (summarize_request_input ranked_docs))
           (random_draw backend) (summarize_request backend ranked_docs) \<and>
         retry_contract (chat_create backend CategoryLabeler (generate_category_input ranked_docs))
           (random_draw backend) (generate_category backend ranked_docs) \<and>
         (\<forall>j. 0 \<le> random_draw backend j * min 60 ((1 / 2) * 2 ^ (j - 1)) \<and>
              random_draw backend j * min 60 ((1 / 2) * 2 ^ (j - 1)) \<le>
                min 60 ((1 / 2) * 2 ^ (j - 1)))"
proof -
  have "retry_contract (chat_create backend TitleGenerator (summarize_request_input ranked_docs))
           (random_draw backend)
           (retrying summarize_request_policy
              (chat_create backend TitleGenerator (summarize_request_input ranked_docs))
              (random_draw backend) 1)"
    by (rule retrying_contract) (simp_all add: summarize_request_policy_def)
  moreover have
    "retry_contract (chat_create backend CategoryLabeler (generate_category_input ranked_docs))
           (random_draw backend)
           (retrying generate_category_policy
              (chat_create backend CategoryLabeler (generate_category_input ranked_docs))
              (random_draw backend) 1)"
    by (rule retrying_contract) (simp_all add: generate_category_policy_def)
  moreover have "\<forall>j. 0 \<le> random_draw backend j * min 60 ((1 / 2) * 2 ^ (j - 1)) \<and>
              random_draw backend j * min 60 ((1 / 2) * 2 ^ (j - 1)) \<le>
                min 60 ((1 / 2) * 2 ^ (j - 1))"
    using assms(2) sleep_bounds by blast
  ultimately show ?thesis
    using assms(1) by (simp add: summarize_request_def generate_category_def)
qed

text \<open>
  A backend that fails with a rate-limit error, then with a timeout, then answers the
  title request and refuses the category request with another error; and a backend that
  is always rate-limited, for which the sleeps reach the cap and the tenth attempt is the
  last.
\<close>

lemma limited_run:
  "summarize_request limited_backend [(ustr ''hi'', 1::rat)] =
     ([Attempt 1, Sleep (1 / 2), Attempt 2, Sleep 1, Attempt 3, Sleep 2, Attempt 4, Sleep 4,
       Attempt 5, Sleep 8, Attempt 6, Sleep 16, Attempt 7, Sleep 32, Attempt 8, Sleep 60,
       Attempt 9, Sleep 60, Attempt 10], Inl (RetryError RateLimitError))"
  by (simp add: summarize_request_def limited_backend_def summarize_request_policy_def
      retrying_stop retrying_again wait_random_exponential_def)

theorem labeler_retry_policy_witness:
  "openai_installed demo_backend \<and>
   summarize_request demo_backend [(ustr ''hi'', 1::rat)] =
     ([Attempt 1, Sleep (1 / 4), Attempt 2, Sleep (1 / 2), Attempt 3], Inr (ustr ''Greetings'')) \<and>
   generate_category demo_backend [(ustr ''hi'', 1::rat)] =
     ([Attempt 1, Sleep (1 / 4), Attempt 2, Sleep (1 / 2), Attempt 3], Inl (OtherError 401)) \<and>
   retry_contract
     (chat_create demo_backend TitleGenerator (summarize_request_input [(ustr ''hi'', 1::rat)]))
     (random_draw demo_backend)
     ([Attempt 1, Sleep (1 / 4), Attempt 2, Sleep (1 / 2), Attempt 3], Inr (ustr ''Greetings'')) \<and>
   retry_contract
     (chat_create demo_backend CategoryLabeler (generate_category_input [(ustr ''hi'', 1::rat)]))
     (random_draw demo_backend)
     ([Attempt 1, Sleep (1 / 4), Attempt 2, Sleep (1 / 2), Attempt 3], Inl (OtherError 401)) \<and>
   retry_contract
     (chat_create limited_backend TitleGenerator (summarize_request_input [(ustr ''hi'', 1::rat)]))
     (random_draw limited_backend)
     ([Attempt 1, Sleep (1 / 2), Attempt 2, Sleep 1, Attempt 3, Sleep 2, Attempt 4, Sleep 4,
       Attempt 5, Sleep 8, Attempt 6, Sleep 16, Attempt 7, Sleep 32, Attempt 8, Sleep 60,
       Attempt 9, Sleep 60, Attempt 10], Inl (RetryError RateLimitError))"
proof -
  have i: "openai_installed demo_backend" by (simp add: demo_backend_def)
  have d: "\<forall>n. 0 \<le> random_draw demo_backend n \<and> random_draw demo_backend n \<le> 1"
    by (simp add: demo_backend_def)
  have i': "openai_installed limited_backend" by (simp add: limited_backend_def)
  have d': "\<forall>n. 0 \<le> random_draw limited_backend n \<and> random_draw limited_backend n \<le> 1"
    by (simp add: limited_backend_def)
  have s: "summarize_request demo_backend [(ustr ''hi'', 1::rat)] =
     ([Attempt 1, Sleep (1 / 4), Attempt 2, Sleep (1 / 2), Attempt 3], Inr (ustr ''Greetings''))"
    by (simp add: summarize_request_def demo_backend_def summarize_request_policy_def
        retrying_result retrying_again wait_random_exponential_def)
  have g: "generate_category demo_backend [(ustr ''hi'', 1::rat)] =
     ([Attempt 1, Sleep (1 / 4), Attempt 2, Sleep (1 / 2), Attempt 3], Inl (OtherError 401))"
    by (simp add: generate_category_def demo_backend_def generate_category_policy_def
        retrying_reraise retrying_again wait_random_exponential_def)
  from labeler_retry_policy [OF i d, of "[(ustr ''hi'', 1::rat)]"]
  have a: "retry_contract
     (chat_create demo_backend TitleGenerator (summarize_request_input [(ustr ''hi'', 1::rat)]))
     (random_draw demo_backend)
     ([Attempt 1, Sleep (1 / 4), Attempt 2, Sleep (1 / 2), Attempt 3], Inr (ustr ''Greetings''))"
    and b: "retry_contract
     (chat_create demo_backend CategoryLabeler (generate_category_input [(ustr ''hi'', 1::rat)]))
     (random_draw demo_backend)
     ([Attempt 1, Sleep (1 / 4), Attempt 2, Sleep (1 / 2), Attempt 3], Inl (OtherError 401))"
    by (simp_all only: s g)
  from labeler_retry_policy [OF i' d', of "[(ustr ''hi'', 1::rat)]"]
  have c: "retry_contract
     (chat_create limited_backend TitleGenerator (summarize_request_input [(ustr ''hi'', 1::rat)]))
     (random_draw limited_backend)
     ([Attempt 1, Sleep (1 / 2), Attempt 2, Sleep 1, Attempt 3, Sleep 2, Attempt 4, Sleep 4,
       Attempt 5, Sleep 8, Attempt 6, Sleep 16, Attempt 7, Sleep 32, Attempt 8, Sleep 60,
       Attempt 9, Sleep 60, Attempt 10], Inl (RetryError RateLimitError))"
    by (simp only: limited_run)
  from i s g a b c show ?thesis by blast
qed

section \<open>Properties of \<open>_compute_titles\<close>\<close>

lemma keep_docs_eq: "keep_docs g = map doc_pair (filter (\<lambda>item. \<not> excluded item) g)"
  by (induction g) (auto simp: excluded_def doc_pair_def Let_def split: option.splits)

lemma shuffle_loop_mset:
  "i < length xs \<Longrightarrow> mset (fst (shuffle_loop rng pos i xs)) = mset xs"
proof (induction i arbitrary: pos xs)
  case 0
  show ?case by simp
next
  case (Suc i)
  let ?j = "rng pos mod (Suc i + 1)"
  let ?ys = "xs[Suc i := xs ! ?j, ?j := xs ! Suc i]"
  have j: "?j < length xs"
  proof -
    have "?j < Suc (Suc i)" by simp
    moreover have "Suc (Suc i) \<le> length xs" using Suc.prems by simp
    ultimately show ?thesis by (rule less_le_trans)
  qed
  have "mset ?ys = mset xs" using j Suc.prems by (rule mset_swap)
  moreover have "mset (fst (shuffle_loop rng (Suc pos) i ?ys)) = mset ?ys"
    by (rule Suc.IH) (use Suc.prems in simp)
  ultimately show ?case by (simp add: Let_def)
qed

lemma shuffle_mset: "mset (fst (shuffle rng pos xs)) = mset xs"
proof (cases xs)
  case Nil
  then show ?thesis by (simp add: shuffle_def)
next
  case (Cons x rest)
  then have "length xs - 1 < length xs" by simp
  then show ?thesis unfolding shuffle_def by (rule shuffle_loop_mset)
qed

lemma insort_desc_mset: "mset (insort_desc x ys) = add_mset x (mset ys)"
  by (induction ys) auto

lemma sort_desc_mset: "mset (sort_desc xs) = mset xs"
  by (induction xs) (auto simp: sort_desc_def insort_desc_mset)

lemma insort_desc_set: "set (insort_desc x ys) = insert x (set ys)"
  by (induction ys) auto

lemma insort_desc_sorted:
  "sorted_wrt (\<lambda>a b. snd b \<le> snd a) ys \<Longrightarrow> sorted_wrt (\<lambda>a b. snd b \<le> snd a) (insort_desc x ys)"
  by (induction ys) (auto simp: insort_desc_set)

lemma sort_desc_sorted: "sorted_wrt (\<lambda>a b. snd b \<le> snd a) (sort_desc xs)"
proof (induction xs)
  case Nil
  show ?case by (simp add: sort_desc_def)
next
  case (Cons x xs)
  then have "sorted_wrt (\<lambda>a b. snd b \<le> snd a) (insort_desc x (sort_desc xs))"
    by (rule insort_desc_sorted)
  then show ?case by (simp add: sort_desc_def)
qed

lemma rank_docs_ranked: "ranked_for g (fst (rank_docs rng pos g))"
proof -
  let ?kept = "remdups (keep_docs g)"
  let ?docs = "sort_desc (fst (shuffle rng pos ?kept))"
  have m: "mset ?docs = mset ?kept" by (simp add: sort_desc_mset shuffle_mset)
  then have "set ?docs = set ?kept" by (rule mset_eq_setD)
  then have s: "set ?docs = doc_pair ` {item \<in> set g. \<not> excluded item}"
    by (auto simp: keep_docs_eq)
  have "distinct ?kept" by simp
  with m have d: "distinct ?docs" by (metis mset_eq_imp_distinct_iff)
  from s d sort_desc_sorted [of "fst (shuffle rng pos ?kept)"] show ?thesis
    by (simp add: ranked_for_def rank_docs_def Let_def)
qed

lemma group_by_concat: "concat (group_by_sorted_key_iter xs key_fn) = xs"
  by (induction xs key_fn rule: group_by_sorted_key_iter.induct) auto

lemma group_by_same_key:
  "g \<in> set (group_by_sorted_key_iter xs key_fn) \<Longrightarrow>
   g \<noteq> [] \<and> (\<forall>x\<in>set g. key_fn x = key_fn (hd g))"
proof (induction xs key_fn arbitrary: g rule: group_by_sorted_key_iter.induct)
  case (1 key_fn)
  then show ?case by simp
next
  case (2 x xs key_fn)
  from "2.prems" consider
    (first) "g = x # takeWhile (\<lambda>y. key_fn y = key_fn x) xs" |
    (rest) "g \<in> set (group_by_sorted_key_iter (dropWhile (\<lambda>y. key_fn y = key_fn x) xs) key_fn)"
    by auto
  then show ?case
  proof cases
    case first
    then show ?thesis by (auto dest: set_takeWhileD)
  next
    case rest
    then show ?thesis by (rule "2.IH")
  qed
qed

lemma yielded_titles_append [simp]:
  "yielded_titles (xs @ ys) = yielded_titles xs @ yielded_titles ys"
  by (induction xs rule: yielded_titles.induct) auto

lemma topic_calls_append [simp]: "topic_calls (xs @ ys) = topic_calls xs @ topic_calls ys"
  by (induction xs rule: topic_calls.induct) auto

lemma yielded_titles_replicate [simp]:
  "yielded_titles (replicate n (YieldTitle t)) = replicate n t"
  by (induction n) auto

lemma topic_calls_replicate [simp]: "topic_calls (replicate n (YieldTitle t)) = []"
  by (induction n) auto

lemma compute_title_Inr:
  assumes "compute_title topic_fn docs n = (tr, Inr (k, title))"
  shows "k = n \<and> title_for topic_fn docs title \<and> yielded_titles tr = [] \<and>
         topic_calls tr = (if docs = [] then [] else [docs])"
  using assms
  by (auto simp: compute_title_def title_for_def unit_def call_def andthen_def
      split: if_splits sum.splits)

lemma titles_of_groups_ok:
  assumes "snd (titles_of_groups rng pos topic_fn groups) = Inr ()"
  shows "\<exists>docs titles.
     list_all2 ranked_for groups docs \<and> list_all2 (title_for topic_fn) docs titles \<and>
     yielded_titles (fst (titles_of_groups rng pos topic_fn groups)) =
       concat (map2 (\<lambda>g t. replicate (length g) t) groups titles) \<and>
     topic_calls (fst (titles_of_groups rng pos topic_fn groups)) =
       filter (\<lambda>ds. ds \<noteq> []) docs"
  using assms
proof (induction groups arbitrary: pos)
  case Nil
  show ?case
    by (rule exI [of _ "[]"], rule exI [of _ "[]"]) (simp add: unit_def)
next
  case (Cons g groups)
  let ?ranked = "rank_docs rng pos g"
  let ?rest = "titles_of_groups rng (snd ?ranked) topic_fn groups"
  obtain tr r where ct: "compute_title topic_fn (fst ?ranked) (length g) = (tr, r)"
    by (cases "compute_title topic_fn (fst ?ranked) (length g)")
  from Cons.prems ct obtain k title where r: "r = Inr (k, title)"
    by (cases r) (auto simp: Let_def)
  from compute_title_Inr [OF ct [unfolded r]]
  have k: "k = length g" and t: "title_for topic_fn (fst ?ranked) title"
    and y: "yielded_titles tr = []"
    and c: "topic_calls tr = (if fst ?ranked = [] then [] else [fst ?ranked])"
    by auto
  have run: "titles_of_groups rng pos topic_fn (g # groups) =
      (tr @ replicate (length g) (YieldTitle title) @ fst ?rest, snd ?rest)"
    by (simp add: ct r k Let_def)
  with Cons.prems have "snd ?rest = Inr ()" by simp
  from Cons.IH [OF this] obtain docs titles where ih:
    "list_all2 ranked_for groups docs" "list_all2 (title_for topic_fn) docs titles"
    "yielded_titles (fst ?rest) = concat (map2 (\<lambda>g t. replicate (length g) t) groups titles)"
    "topic_calls (fst ?rest) = filter (\<lambda>ds. ds \<noteq> []) docs"
    by blast
  have "list_all2 ranked_for (g # groups) (fst ?ranked # docs)"
    using ih(1) rank_docs_ranked [of g rng pos] by simp
  moreover have "list_all2 (title_for topic_fn) (fst ?ranked # docs) (title # titles)"
    using ih(2) t by simp
  moreover have "yielded_titles (fst (titles_of_groups rng pos topic_fn (g # groups))) =
       concat (map2 (\<lambda>g t. replicate (length g) t) (g # groups) (title # titles))"
    unfolding run by (simp add: y ih(3))
  moreover have "topic_calls (fst (titles_of_groups rng pos topic_fn (g # groups))) =
       filter (\<lambda>ds. ds \<noteq> []) (fst ?ranked # docs)"
    unfolding run by (simp add: c ih(4))
  ultimately show ?case by blast
qed

lemma length_concat_replicate:
  "length groups = length titles \<Longrightarrow>
   length (concat (map2 (\<lambda>g t. replicate (length g) t) groups titles)) =
   length (concat groups)"
  by (induction groups titles rule: list_induct2) auto

lemma negative_group_excluded:
  assumes "\<forall>item\<in>set g. row_id item = row_id (hd g)"
    and "item \<in> set g" and "row_id item = Some c" and "c < 0"
  shows "{x \<in> set g. \<not> excluded x} = {}"
  using assms by (auto simp: excluded_def)

text \<open>
  C5. When \<open>_compute_titles\<close> ends without exception, the groups are the runs of
  neighbouring rows with the same id and make up the input in order; each group has a
  ranked list holding exactly the pairs of its rows that are not excluded (a row is
  excluded for an empty or missing text, a zero membership or a negative id), and a title:
  none when the ranked list is empty, else the answer of the topic function, which is
  called on the non-empty ranked lists and on nothing else. The titles yielded are, group
  after group, the title of the group once for each of its rows: one title per row, in the
  order of the rows. A group with a negative id has an empty ranked list and no title.
\<close>

theorem compute_titles_spec:
  assumes "snd (compute_titles rng topic_fn items) = Inr ()"
    and "groups = group_by_sorted_key_iter items row_id"
    and "tr = fst (compute_titles rng topic_fn items)"
  shows "\<exists>docs titles.
     concat groups = items \<and>
     (\<forall>g\<in>set groups. g \<noteq> [] \<and> (\<forall>item\<in>set g. row_id item = row_id (hd g))) \<and>
     list_all2 ranked_for groups docs \<and>
     list_all2 (title_for topic_fn) docs titles \<and>
     topic_calls tr = filter (\<lambda>ds. ds \<noteq> []) docs \<and>
     yielded_titles tr = concat (map2 (\<lambda>g t. replicate (length g) t) groups titles) \<and>
     length (yielded_titles tr) = length items \<and>
     (\<forall>k<length groups.
        (\<exists>item\<in>set (groups ! k). \<exists>c. row_id item = Some c \<and> c < 0) \<longrightarrow>
        docs ! k = [] \<and> titles ! k = None)"
proof -
  from assms(1) have run: "compute_titles rng topic_fn items =
      titles_of_groups rng 0 topic_fn groups"
    by (auto simp: compute_titles_def assms(2) split: if_splits)
  with assms(1) have "snd (titles_of_groups rng 0 topic_fn groups) = Inr ()" by simp
  from titles_of_groups_ok [OF this] obtain docs titles where ok:
    "list_all2 ranked_for groups docs" "list_all2 (title_for topic_fn) docs titles"
    "yielded_titles tr = concat (map2 (\<lambda>g t. replicate (length g) t) groups titles)"
    "topic_calls tr = filter (\<lambda>ds. ds \<noteq> []) docs"
    unfolding assms(3) run by blast
  have c: "concat groups = items" unfolding assms(2) by (rule group_by_concat)
  have same: "\<forall>g\<in>set groups. g \<noteq> [] \<and> (\<forall>item\<in>set g. row_id item = row_id (hd g))"
    unfolding assms(2) using group_by_same_key by blast
  have len: "length groups = length titles"
    using ok(1,2) [THEN list_all2_lengthD] by simp
  have n: "length (yielded_titles tr) = length items"
    unfolding ok(3) using length_concat_replicate [OF len] c by simp
  have neg: "docs ! k = [] \<and> titles ! k = None"
    if k: "k < length groups"
      and e: "\<exists>item\<in>set (groups ! k). \<exists>c. row_id item = Some c \<and> c < 0" for k
  proof -
    from k have "groups ! k \<in> set groups" by simp
    with same have sk: "\<forall>item\<in>set (groups ! k). row_id item = row_id (hd (groups ! k))"
      by blast
    from e obtain item c where "item \<in> set (groups ! k)" "row_id item = Some c" "c < 0"
      by blast
    with sk have em: "{x \<in> set (groups ! k). \<not> excluded x} = {}"
      by (rule negative_group_excluded)
    from ok(1) k have "ranked_for (groups ! k) (docs ! k)"
      by (rule list_all2_nthD)
    then have "set (docs ! k) = doc_pair ` {x \<in> set (groups ! k). \<not> excluded x}"
      by (simp add: ranked_for_def)
    then have "set (docs ! k) = {}" by (simp only: em image_empty)
    then have d: "docs ! k = []" by simp
    have "k < length docs" using ok(1) k by (simp add: list_all2_lengthD)
    with ok(2) have "title_for topic_fn (docs ! k) (titles ! k)"
      by (rule list_all2_nthD)
    with d show ?thesis by (simp add: title_for_def)
  qed
  from c same ok n neg show ?thesis by blast
qed

text \<open>
  Five rows in three groups: a noise row, a cluster with two usable rows out of three, and
  a cluster whose only row has membership zero.
\<close>

theorem compute_titles_witness:
  "snd (compute_titles (\<lambda>n. 0) demo_topic_fn demo_rows) = Inr () \<and>
   length (yielded_titles (fst (compute_titles (\<lambda>n. 0) demo_topic_fn demo_rows))) = 5 \<and>
   yielded_titles (fst (compute_titles (\<lambda>n. 0) demo_topic_fn demo_rows)) =
     [None, Some [98, 43, 97], Some [98, 43, 97], Some [98, 43, 97], None] \<and>
   topic_calls (fst (compute_titles (\<lambda>n. 0) demo_topic_fn demo_rows)) =
     [[([98], 1), ([97], 1 / 2)]]"
proof -
  have ok: "snd (compute_titles (\<lambda>n. 0) demo_topic_fn demo_rows) = Inr ()"
    by code_simp
  from compute_titles_spec [OF ok refl refl]
  have "length (yielded_titles (fst (compute_titles (\<lambda>n. 0) demo_topic_fn demo_rows))) =
        length demo_rows"
    by blast
  then have n: "length (yielded_titles (fst (compute_titles (\<lambda>n. 0) demo_topic_fn demo_rows))) = 5"
    by (simp add: demo_rows_def)
  have y: "yielded_titles (fst (compute_titles (\<lambda>n. 0) demo_topic_fn demo_rows)) =
     [None, Some [98, 43, 97], Some [98, 43, 97], Some [98, 43, 97], None]"
    by code_simp
  have t: "topic_calls (fst (compute_titles (\<lambda>n. 0) demo_topic_fn demo_rows)) =
     [[([98], 1), ([97], 1 / 2)]]"
    by code_simp
  from ok n y t show ?thesis by blast
qed

section \<open>Properties of \<open>cluster_impl\<close>\<close>

lemma lookup_task_quiet:
  "lookup_task pl task_id = (tr0, r) \<Longrightarrow> filter touches_data tr0 = []"
  by (auto simp: lookup_task_def call_def unit_def andthen_def
      split: if_splits sum.splits prod.splits)

lemma cluster_impl_check_fails:
  assumes "lookup_task pl task_id = (tr0, Inr has_task)"
    and "manifest pl = Inr schema"
    and "check_input pl schema (unwrap_input input) output_path = Inl e"
  shows "cluster_impl pl input output_path m overwrite remote task_id recompute =
           (tr0 @ [Manifest], Inl e)"
  by (simp add: cluster_impl_def assms Let_def)

text \<open>
  C9. For an input that is a path (given directly or as a selector), once the task lookup
  and \<open>dataset.manifest()\<close> have returned: when the normalized path is not a field of the
  schema, or its field has no dtype or a dtype other than \<open>string\<close>, \<open>cluster_impl\<close> raises
  \<open>ValueError\<close> at once. Up to then it has read the schema and nothing else: no \<open>map\<close>,
  \<open>transform\<close> or \<open>stats\<close> of any stage has been called.
\<close>

theorem cluster_impl_rejects_bad_path:
  assumes "lookup_task pl task_id = (tr0, Inr has_task)"
    and "manifest pl = Inr schema"
    and "unwrap_input input = InPath p"
    and "path = normalize_path pl p"
    and "schema path = None \<or> (\<exists>f. schema path = Some f \<and> field_dtype f \<noteq> Some ''string'')"
  shows "cluster_impl pl input output_path m overwrite remote task_id recompute =
           (tr0 @ [Manifest],
            Inl (ValueError (if schema path = None then PathDoesNotExist path
                             else MustBeStringField path))) \<and>
         filter touches_data (tr0 @ [Manifest]) = []"
proof -
  have c: "check_input pl schema (unwrap_input input) output_path =
      Inl (ValueError (if schema path = None then PathDoesNotExist path
                       else MustBeStringField path))"
    using assms(5)
    by (auto simp: check_input_def assms(3) assms(4) [symmetric] Let_def
        split: option.splits)
  from cluster_impl_check_fails [OF assms(1,2) c] lookup_task_quiet [OF assms(1)]
  show ?thesis by simp
qed

text \<open>A path that the schema does not have, and a path to an \<open>int32\<close> field.\<close>

theorem cluster_impl_rejects_bad_path_witness:
  "cluster_impl demo_pipeline (Plain (InPath (PathStr ''nope''))) None 5 False False
     (Some ''t1'') False =
     ([GetTaskInfo ''t1'', Manifest], Inl (ValueError (PathDoesNotExist [''nope'']))) \<and>
   cluster_impl demo_pipeline (FormatSelector (InPath (PathStr ''n''))) None 5 False False
     None False =
     ([Manifest], Inl (ValueError (MustBeStringField [''n''])))"
proof -
  have l1: "lookup_task demo_pipeline (Some ''t1'') = ([GetTaskInfo ''t1''], Inr True)"
    by (simp add: lookup_task_def demo_pipeline_def unit_def call_def andthen_def)
  have l2: "lookup_task demo_pipeline None = ([], Inr False)"
    by (simp add: lookup_task_def unit_def)
  have m: "manifest demo_pipeline = Inr demo_schema" by (simp add: demo_pipeline_def)
  have n1: "[''nope''] = normalize_path demo_pipeline (PathStr ''nope'')"
    by (simp add: demo_pipeline_def)
  have n2: "[''n''] = normalize_path demo_pipeline (PathStr ''n'')"
    by (simp add: demo_pipeline_def)
  have s1: "demo_schema [''nope''] = None" by (simp add: demo_schema_def)
  have s2: "demo_schema [''n''] = Some \<lparr>field_dtype = Some ''int32''\<rparr>"
    by (simp add: demo_schema_def)
  from cluster_impl_rejects_bad_path [OF l1 m _ n1, of "Plain (InPath (PathStr ''nope''))"
      None 5 False False False] s1
  have a: "cluster_impl demo_pipeline (Plain (InPath (PathStr ''nope''))) None 5 False False
     (Some ''t1'') False =
     ([GetTaskInfo ''t1'', Manifest], Inl (ValueError (PathDoesNotExist [''nope''])))"
    by simp
  from cluster_impl_rejects_bad_path [OF l2 m _ n2, of "FormatSelector (InPath (PathStr ''n''))"
      None 5 False False False] s2
  have b: "cluster_impl demo_pipeline (FormatSelector (InPath (PathStr ''n''))) None 5 False
     False None False =
     ([Manifest], Inl (ValueError (MustBeStringField [''n''])))"
    by simp
  from a b show ?thesis by simp
qed

text \<open>
  C10. For an input that is a callable (given directly or as a selector) and
  \<open>output_path = None\<close>, once the task lookup and \<open>dataset.manifest()\<close> have returned,
  \<open>cluster_impl\<close> raises \<open>ValueError\<close> (output_path must be provided if input is a
  function). Up to then it has read the schema and nothing else: no \<open>map\<close>, \<open>transform\<close>
  or \<open>stats\<close> has been called.
\<close>

theorem cluster_impl_requires_output_path:
  assumes "lookup_task pl task_id = (tr0, Inr has_task)"
    and "manifest pl = Inr schema"
    and "unwrap_input input = InFn f"
  shows "cluster_impl pl input None m overwrite remote task_id recompute =
           (tr0 @ [Manifest], Inl (ValueError OutputPathRequired)) \<and>
         filter touches_data (tr0 @ [Manifest]) = []"
proof -
  have c: "check_input pl schema (unwrap_input input) None =
      Inl (ValueError OutputPathRequired)"
    by (simp add: check_input_def assms(3))
  from cluster_impl_check_fails [OF assms(1,2) c] lookup_task_quiet [OF assms(1)]
  show ?thesis by simp
qed

text \<open>A callable given as a selector, and one given directly with a task id.\<close>

theorem cluster_impl_requires_output_path_witness:
  "cluster_impl demo_pipeline (FormatSelector (InFn ''f'')) None 5 False False None False =
     ([Manifest], Inl (ValueError OutputPathRequired)) \<and>
   cluster_impl demo_pipeline (Plain (InFn ''f'')) None 5 True False (Some ''t1'') False =
     ([GetTaskInfo ''t1'', Manifest], Inl (ValueError OutputPathRequired))"
proof -
  have l1: "lookup_task demo_pipeline (Some ''t1'') = ([GetTaskInfo ''t1''], Inr True)"
    by (simp add: lookup_task_def demo_pipeline_def unit_def call_def andthen_def)
  have l2: "lookup_task demo_pipeline None = ([], Inr False)"
    by (simp add: lookup_task_def unit_def)
  have m: "manifest demo_pipeline = Inr demo_schema" by (simp add: demo_pipeline_def)
  from cluster_impl_requires_output_path [OF l2 m, of "FormatSelector (InFn ''f'')" "''f''"
      5 False False False]
  have a: "cluster_impl demo_pipeline (FormatSelector (InFn ''f'')) None 5 False False None
     False = ([Manifest], Inl (ValueError OutputPathRequired))"
    by simp
  from cluster_impl_requires_output_path [OF l1 m, of "Plain (InFn ''f'')" "''f''"
      5 True False False]
  have b: "cluster_impl demo_pipeline (Plain (InFn ''f'')) None 5 True False (Some ''t1'')
     False = ([GetTaskInfo ''t1'', Manifest], Inl (ValueError OutputPathRequired))"
    by simp
  from a b show ?thesis by simp
qed

end
